theory Spec2Isabelle
  imports Main "HOL-Library.Word" "HOL-Library.Sublist"
begin

unbundle bit_operations_syntax

section \<open>Machine types of zip\_write.h\<close>

text \<open>
  The header fixes \<open>zw_u8\<close>, \<open>zw_u16\<close>, \<open>zw_u32\<close> and \<open>zw_u64\<close> by static
  assertions on their sizes. Values of these types are words. Cursors, loop
  indices and window offsets are natural numbers: the code keeps them below
  65536 (the input cursor never passes \<open>in_total = 32768\<close>), so their
  16-bit arithmetic never wraps; the explicit casts of the source are written
  out where they occur.
\<close>

type_synonym zw_u8 = "8 word"
type_synonym zw_u16 = "16 word"
type_synonym zw_u32 = "32 word"
type_synonym zw_u64 = "64 word"

text \<open>A \<open>const zw_u8*\<close> argument: the byte found at each offset from the pointer.\<close>

type_synonym zw_ptr = "nat \<Rightarrow> zw_u8"

section \<open>CRC-32 (\<open>zw__crc32\<close>)\<close>

definition crc_table :: "zw_u32 list" where
  "crc_table = [
    0x00000000, 0x77073096, 0xEE0E612C, 0x990951BA, 0x076DC419, 0x706AF48F, 0xE963A535, 0x9E6495A3,
    0x0EDB8832, 0x79DCB8A4, 0xE0D5E91E, 0x97D2D988, 0x09B64C2B, 0x7EB17CBD, 0xE7B82D07, 0x90BF1D91,
    0x1DB71064, 0x6AB020F2, 0xF3B97148, 0x84BE41DE, 0x1ADAD47D, 0x6DDDE4EB, 0xF4D4B551, 0x83D385C7,
    0x136C9856, 0x646BA8C0, 0xFD62F97A, 0x8A65C9EC, 0x14015C4F, 0x63066CD9, 0xFA0F3D63, 0x8D080DF5,
    0x3B6E20C8, 0x4C69105E, 0xD56041E4, 0xA2677172, 0x3C03E4D1, 0x4B04D447, 0xD20D85FD, 0xA50AB56B,
    0x35B5A8FA, 0x42B2986C, 0xDBBBC9D6, 0xACBCF940, 0x32D86CE3, 0x45DF5C75, 0xDCD60DCF, 0xABD13D59,
    0x26D930AC, 0x51DE003A, 0xC8D75180, 0xBFD06116, 0x21B4F4B5, 0x56B3C423, 0xCFBA9599, 0xB8BDA50F,
    0x2802B89E, 0x5F058808, 0xC60CD9B2, 0xB10BE924, 0x2F6F7C87, 0x58684C11, 0xC1611DAB, 0xB6662D3D,
    0x76DC4190, 0x01DB7106, 0x98D220BC, 0xEFD5102A, 0x71B18589, 0x06B6B51F, 0x9FBFE4A5, 0xE8B8D433,
    0x7807C9A2, 0x0F00F934, 0x9609A88E, 0xE10E9818, 0x7F6A0DBB, 0x086D3D2D, 0x91646C97, 0xE6635C01,
    0x6B6B51F4, 0x1C6C6162, 0x856530D8, 0xF262004E, 0x6C0695ED, 0x1B01A57B, 0x8208F4C1, 0xF50FC457,
    0x65B0D9C6, 0x12B7E950, 0x8BBEB8EA, 0xFCB9887C, 0x62DD1DDF, 0x15DA2D49, 0x8CD37CF3, 0xFBD44C65,
    0x4DB26158, 0x3AB551CE, 0xA3BC0074, 0xD4BB30E2, 0x4ADFA541, 0x3DD895D7, 0xA4D1C46D, 0xD3D6F4FB,
    0x4369E96A, 0x346ED9FC, 0xAD678846, 0xDA60B8D0, 0x44042D73, 0x33031DE5, 0xAA0A4C5F, 0xDD0D7CC9,
    0x5005713C, 0x270241AA, 0xBE0B1010, 0xC90C2086, 0x5768B525, 0x206F85B3, 0xB966D409, 0xCE61E49F,
    0x5EDEF90E, 0x29D9C998, 0xB0D09822, 0xC7D7A8B4, 0x59B33D17, 0x2EB40D81, 0xB7BD5C3B, 0xC0BA6CAD,
    0xEDB88320, 0x9ABFB3B6, 0x03B6E20C, 0x74B1D29A, 0xEAD54739, 0x9DD277AF, 0x04DB2615, 0x73DC1683,
    0xE3630B12, 0x94643B84, 0x0D6D6A3E, 0x7A6A5AA8, 0xE40ECF0B, 0x9309FF9D, 0x0A00AE27, 0x7D079EB1,
    0xF00F9344, 0x8708A3D2, 0x1E01F268, 0x6906C2FE, 0xF762575D, 0x806567CB, 0x196C3671, 0x6E6B06E7,
    0xFED41B76, 0x89D32BE0, 0x10DA7A5A, 0x67DD4ACC, 0xF9B9DF6F, 0x8EBEEFF9, 0x17B7BE43, 0x60B08ED5,
    0xD6D6A3E8, 0xA1D1937E, 0x38D8C2C4, 0x4FDFF252, 0xD1BB67F1, 0xA6BC5767, 0x3FB506DD, 0x48B2364B,
    0xD80D2BDA, 0xAF0A1B4C, 0x36034AF6, 0x41047A60, 0xDF60EFC3, 0xA867DF55, 0x316E8EEF, 0x4669BE79,
    0xCB61B38C, 0xBC66831A, 0x256FD2A0, 0x5268E236, 0xCC0C7795, 0xBB0B4703, 0x220216B9, 0x5505262F,
    0xC5BA3BBE, 0xB2BD0B28, 0x2BB45A92, 0x5CB36A04, 0xC2D7FFA7, 0xB5D0CF31, 0x2CD99E8B, 0x5BDEAE1D,
    0x9B64C2B0, 0xEC63F226, 0x756AA39C, 0x026D930A, 0x9C0906A9, 0xEB0E363F, 0x72076785, 0x05005713,
    0x95BF4A82, 0xE2B87A14, 0x7BB12BAE, 0x0CB61B38, 0x92D28E9B, 0xE5D5BE0D, 0x7CDCEFB7, 0x0BDBDF21,
    0x86D3D2D4, 0xF1D4E242, 0x68DDB3F8, 0x1FDA836E, 0x81BE16CD, 0xF6B9265B, 0x6FB077E1, 0x18B74777,
    0x88085AE6, 0xFF0F6A70, 0x66063BCA, 0x11010B5C, 0x8F659EFF, 0xF862AE69, 0x616BFFD3, 0x166CCF45,
    0xA00AE278, 0xD70DD2EE, 0x4E048354, 0x3903B3C2, 0xA7672661, 0xD06016F7, 0x4969474D, 0x3E6E77DB,
    0xAED16A4A, 0xD9D65ADC, 0x40DF0B66, 0x37D83BF0, 0xA9BCAE53, 0xDEBB9EC5, 0x47B2CF7F, 0x30B5FFE9,
    0xBDBDF21C, 0xCABAC28A, 0x53B39330, 0x24B4A3A6, 0xBAD03605, 0xCDD70693, 0x54DE5729, 0x23D967BF,
    0xB3667A2E, 0xC4614AB8, 0x5D681B02, 0x2A6F2B94, 0xB40BBE37, 0xC30C8EA1, 0x5A05DF1B, 0x2D02EF8D]"

text \<open>One round of the loop body: \<open>crc = (crc >> 8) ^ crc_table[buffer[i] ^ (crc & 0xff)]\<close>.\<close>

definition zw__crc32_step :: "zw_u32 \<Rightarrow> zw_u8 \<Rightarrow> zw_u32" where
  "zw__crc32_step crc b = drop_bit 8 crc XOR crc_table ! unat (ucast b XOR (crc AND 0xff))"

text \<open>The buffer and its length are one list; the loop runs over it front to back.\<close>

definition zw__crc32 :: "zw_u8 list \<Rightarrow> zw_u32 \<Rightarrow> zw_u32" where
  "zw__crc32 buffer initial = NOT (foldl zw__crc32_step (NOT initial) buffer)"

section \<open>MS-DOS time and date\<close>

text \<open>
  The arguments are C \<open>unsigned\<close>. The second clamp of \<open>zw__zip_encode_time\<close>
  assigns to \<open>hour\<close>, as the source does.
\<close>

definition zw__zip_encode_time :: "zw_u32 \<Rightarrow> zw_u32 \<Rightarrow> zw_u32 \<Rightarrow> zw_u16" where
  "zw__zip_encode_time hour minute second =
     (let hour1 = (if hour > 23 then 23 else hour);
          hour2 = (if minute > 59 then 59 else hour1);
          second1 = (if second > 59 then 59 else second)
      in ucast (drop_bit 1 second1 OR push_bit 5 minute OR push_bit 11 hour2))"

definition zw__zip_encode_date :: "zw_u32 \<Rightarrow> zw_u32 \<Rightarrow> zw_u32 \<Rightarrow> zw_u16" where
  "zw__zip_encode_date year month day =
     (let year1 = (if year \<ge> 1980 then year - 1980 else 0);
          year2 = (if year1 > 127 then 127 else year1);
          month1 = (if month > 12 then 12 else month);
          day1 = (if day > 31 then 31 else day)
      in ucast (day1 OR push_bit 5 month1 OR push_bit 9 year2))"

section \<open>Common-prefix counting (\<open>zw__zlib_countm\<close>)\<close>

text \<open>The scalar loop \<open>for (; i < limit; ++i) if (a[i] != b[i]) break;\<close>.\<close>

function zw__countm_loop :: "zw_ptr \<Rightarrow> zw_ptr \<Rightarrow> nat \<Rightarrow> nat \<Rightarrow> nat" where
  "zw__countm_loop a b limit i =
     (if i < limit then (if a i \<noteq> b i then i else zw__countm_loop a b limit (i + 1)) else i)"
  by pat_completeness auto
termination
  by (relation "measure (\<lambda>(a, b, limit, i). limit - i)") auto

declare zw__countm_loop.simps [simp del]

text \<open>The function as compiled with \<open>ZW_NO_SSE\<close>.\<close>

definition zw__zlib_countm :: "zw_ptr \<Rightarrow> zw_ptr \<Rightarrow> nat \<Rightarrow> nat" where
  "zw__zlib_countm a b limit =
     zw__countm_loop a b (if limit > 258 then 258 else limit) 0"

text \<open>
  \<open>_mm_movemask_epi8(_mm_cmpeq_epi8(va, vb))\<close> for the 16 bytes loaded at
  \<open>a + i\<close> and \<open>b + i\<close>: bit \<open>k\<close> is set exactly when the bytes at offset
  \<open>i + k\<close> are equal.
\<close>

definition zw__cmpeq_mask :: "zw_ptr \<Rightarrow> zw_ptr \<Rightarrow> nat \<Rightarrow> zw_u32" where
  "zw__cmpeq_mask a b i = horner_sum of_bool 2 (map (\<lambda>k. a (i + k) = b (i + k)) [0..<16])"

text \<open>
  \<open>zw__bsf\<close>: the index of the lowest set bit. The C intrinsic is undefined
  at 0, where this gives 32; the callers test \<open>mask != 0\<close> first.
\<close>

definition zw__bsf :: "zw_u32 \<Rightarrow> nat" where
  "zw__bsf m = length (takeWhile (\<lambda>k. \<not> bit m k) [0..<32])"

text \<open>
  The 32-byte loop of the SSE path. \<open>Inl r\<close> is the early \<open>return r\<close>,
  \<open>Inr i\<close> is leaving the loop with index \<open>i\<close>.
\<close>

function zw__countm_sse32 :: "zw_ptr \<Rightarrow> zw_ptr \<Rightarrow> nat \<Rightarrow> nat \<Rightarrow> nat + nat" where
  "zw__countm_sse32 a b limit i =
     (if i + 32 \<le> limit then
        (let m = NOT (zw__cmpeq_mask a b i OR push_bit 16 (zw__cmpeq_mask a b (i + 16)))
         in if m \<noteq> 0 then Inl (i + zw__bsf m)
            else zw__countm_sse32 a b limit (i + 32))
      else Inr i)"
  by pat_completeness auto
termination
  by (relation "measure (\<lambda>(a, b, limit, i). limit - i)") auto

declare zw__countm_sse32.simps [simp del]

text \<open>The single 16-byte step that follows the loop.\<close>

definition zw__countm_sse16 :: "zw_ptr \<Rightarrow> zw_ptr \<Rightarrow> nat \<Rightarrow> nat \<Rightarrow> nat + nat" where
  "zw__countm_sse16 a b limit i =
     (if i + 16 \<le> limit then
        (let m = zw__cmpeq_mask a b i XOR 0xffff
         in if m \<noteq> 0 then Inl (i + zw__bsf m) else Inr (i + 16))
      else Inr i)"

text \<open>The function as compiled with SSE2 available.\<close>

definition zw__zlib_countm_sse :: "zw_ptr \<Rightarrow> zw_ptr \<Rightarrow> nat \<Rightarrow> nat" where
  "zw__zlib_countm_sse a b limit =
     (let limit1 = (if limit > 258 then 258 else limit)
      in case zw__countm_sse32 a b limit1 0 of
           Inl r \<Rightarrow> r
         | Inr i \<Rightarrow>
             (case zw__countm_sse16 a b limit1 i of
                Inl r \<Rightarrow> r
              | Inr i' \<Rightarrow> zw__countm_loop a b limit1 i'))"

section \<open>Stretchy buffers\<close>

text \<open>
  A stretchy-buffer pointer is \<open>None\<close> when it is \<open>NULL\<close> and \<open>Some xs\<close>
  when it is allocated, \<open>xs\<close> being its \<open>zw__sbn\<close> live items in order. The
  capacity \<open>zw__sbm\<close> and the items past the count are never read by the
  code modelled here; allocation is taken to succeed (the source asserts it).
\<close>

type_synonym 'a zw__sb = "'a list option"

definition zw__sbcount :: "'a zw__sb \<Rightarrow> nat" where
  "zw__sbcount a = (case a of None \<Rightarrow> 0 | Some xs \<Rightarrow> length xs)"

text \<open>The items a loop \<open>for (j = 0; j < zw__sbcount(a); ++j)\<close> visits.\<close>

definition zw__sbitems :: "'a zw__sb \<Rightarrow> 'a list" where
  "zw__sbitems a = (case a of None \<Rightarrow> [] | Some xs \<Rightarrow> xs)"

definition zw__sbpush :: "'a zw__sb \<Rightarrow> 'a \<Rightarrow> 'a zw__sb" where
  "zw__sbpush a v = Some (zw__sbitems a @ [v])"

section \<open>The archive state\<close>

text \<open>
  \<open>zw_output_stream\<close>: the data fields. The function pointers \<open>write\<close> and
  \<open>close\<close> act on this record (they receive the stream and may change its
  user data and its error field), so they are fields of the archive
  (\<open>stream_write\<close>, \<open>stream_close\<close>) beside it. \<open>stream_write\<close> returns the
  byte count the sink reports and the stream as the sink left it.
\<close>

record 'u zw_output_stream =
  user_data :: 'u
  error :: int

type_synonym 'u zw_write_fn = "'u zw_output_stream \<Rightarrow> zw_u8 list \<Rightarrow> nat \<times> 'u zw_output_stream"
type_synonym 'u zw_close_fn = "'u zw_output_stream \<Rightarrow> 'u zw_output_stream"

text \<open>
  The calls that leave the library, in order: each call of the sink's
  \<open>write\<close> with its buffer, each call of the sink's \<open>close\<close>, and
  \<open>ZW_FREE(archive)\<close>. The archive carries this trace (\<open>calls\<close>) so that
  what reaches the sink can be stated for every sink.
\<close>

datatype zw_call = SinkWrite "zw_u8 list" | SinkClose | ArchiveFree

record zw__current_file =
  start_offset :: zw_u64
  compressed_size :: zw_u64
  uncompressed_size :: zw_u64
  crc :: zw_u32
  name_length :: nat
  name :: "zw_u8 list"

record 'u zw__zip_details =
  magic :: zw_u32
  bitbuf :: zw_u32
  bitcount :: nat
  quality :: nat
  out :: "nat \<Rightarrow> zw_u8"
  out_cursor :: nat
  out_total :: nat
  window :: "nat \<Rightarrow> zw_u8"
  in_cursor :: nat
  in_total :: nat
  hash_table :: "nat \<Rightarrow> nat zw__sb"
  stream :: "'u zw_output_stream"
  stream_write :: "'u zw_write_fn"
  stream_close :: "'u zw_close_fn option"
  offset :: zw_u64
  current_file :: zw__current_file
  time :: zw_u16
  date :: zw_u16
  central_dir :: "zw_u8 zw__sb"
  num_files :: zw_u64
  calls :: "zw_call list"

text \<open>A \<open>zw_zip\<close> handle is a pointer: \<open>None\<close> is \<open>NULL\<close>.\<close>

type_synonym 'u zw_zip = "'u zw__zip_details option"

definition zw__archive_magic :: zw_u32 where
  "zw__archive_magic = 0x75 OR push_bit 8 0x5A OR push_bit 16 0x49 OR push_bit 24 0x50"

definition zw__hash_size :: nat where
  "zw__hash_size = 16384"

section \<open>Sink adapter and bit writer\<close>

definition zw__write_to_stream ::
    "'u zw__zip_details \<Rightarrow> zw_u8 list \<Rightarrow> bool \<times> 'u zw__zip_details" where
  "zw__write_to_stream archive data =
     (if length data = 0 then (True, archive)
      else if error (stream archive) \<noteq> 0 then (False, archive)
      else
        (let (written, stream1) = stream_write archive (stream archive) data;
             archive1 = archive\<lparr>stream := stream1,
                                 offset := offset archive + of_nat written,
                                 calls := calls archive @ [SinkWrite data]\<rparr>
         in if written = length data then (True, archive1)
            else if error stream1 = 0
              then (False, archive1\<lparr>stream := stream1\<lparr>error := 1\<rparr>\<rparr>)
              else (False, archive1)))"

definition zw__flush_compressed_bytes :: "'u zw__zip_details \<Rightarrow> 'u zw__zip_details" where
  "zw__flush_compressed_bytes archive =
     (if out_cursor archive > 0 then
        (let cf = current_file archive;
             archive1 = archive\<lparr>current_file :=
                          cf\<lparr>compressed_size := compressed_size cf + of_nat (out_cursor archive)\<rparr>\<rparr>;
             archive2 = snd (zw__write_to_stream archive1
                               (map (out archive1) [0..<out_cursor archive1]))
         in archive2\<lparr>out_cursor := 0\<rparr>)
      else archive)"

lemma bitcount_zw__write_to_stream [simp]:
  "bitcount (snd (zw__write_to_stream archive data)) = bitcount archive"
  by (simp add: zw__write_to_stream_def Let_def split: prod.splits)

lemma bitcount_zw__flush_compressed_bytes [simp]:
  "bitcount (zw__flush_compressed_bytes archive) = bitcount archive"
  by (simp add: zw__flush_compressed_bytes_def Let_def)

text \<open>One round of the loop of \<open>zw__flush_bits\<close>.\<close>

definition zw__flush_byte :: "'u zw__zip_details \<Rightarrow> 'u zw__zip_details" where
  "zw__flush_byte archive =
     (let archive1 = archive\<lparr>out := (out archive)(out_cursor archive := ucast (bitbuf archive AND 0xff)),
                              out_cursor := out_cursor archive + 1\<rparr>;
          archive2 = (if out_cursor archive1 = out_total archive1
                      then zw__flush_compressed_bytes archive1 else archive1)
      in archive2\<lparr>bitbuf := drop_bit 8 (bitbuf archive2), bitcount := bitcount archive2 - 8\<rparr>)"

lemma bitcount_zw__flush_byte [simp]:
  "bitcount (zw__flush_byte archive) = bitcount archive - 8"
  by (simp add: zw__flush_byte_def Let_def)

function zw__flush_bits :: "'u zw__zip_details \<Rightarrow> 'u zw__zip_details" where
  "zw__flush_bits archive =
     (if bitcount archive \<ge> 8 then zw__flush_bits (zw__flush_byte archive) else archive)"
  by pat_completeness auto
termination
  by (relation "measure bitcount") auto

declare zw__flush_bits.simps [simp del]

fun zw__zlib_bitrev_loop :: "zw_u32 \<Rightarrow> nat \<Rightarrow> zw_u32 \<Rightarrow> zw_u32" where
  "zw__zlib_bitrev_loop code 0 res = res"
| "zw__zlib_bitrev_loop code (Suc codebits) res =
     zw__zlib_bitrev_loop (drop_bit 1 code) codebits (push_bit 1 res OR (code AND 1))"

definition zw__zlib_bitrev :: "zw_u32 \<Rightarrow> nat \<Rightarrow> zw_u32" where
  "zw__zlib_bitrev code codebits = zw__zlib_bitrev_loop code codebits 0"

definition zw__zhash :: "zw_ptr \<Rightarrow> zw_u32" where
  "zw__zhash data =
     (let hash0 = ucast (data 0) + push_bit 8 (ucast (data 1)) + push_bit 16 (ucast (data 2));
          hash1 = hash0 XOR push_bit 3 hash0;
          hash2 = hash1 + drop_bit 5 hash1;
          hash3 = hash2 XOR push_bit 4 hash2;
          hash4 = hash3 + drop_bit 17 hash3;
          hash5 = hash4 XOR push_bit 25 hash4;
          hash6 = hash5 + drop_bit 6 hash5
      in hash6)"

text \<open>The macros \<open>zw__zlib_add\<close>, \<open>zw__zlib_huffa\<close>, \<open>zw__zlib_huff1..4\<close>,
  \<open>zw__zlib_huff\<close> and \<open>zw__zlib_huffb\<close>.\<close>

definition zw__zlib_add :: "zw_u32 \<Rightarrow> nat \<Rightarrow> 'u zw__zip_details \<Rightarrow> 'u zw__zip_details" where
  "zw__zlib_add code codebits archive =
     zw__flush_bits (archive\<lparr>bitbuf := bitbuf archive OR push_bit (bitcount archive) code,
                              bitcount := bitcount archive + codebits\<rparr>)"

definition zw__zlib_huffa :: "zw_u32 \<Rightarrow> nat \<Rightarrow> 'u zw__zip_details \<Rightarrow> 'u zw__zip_details" where
  "zw__zlib_huffa b c archive = zw__zlib_add (zw__zlib_bitrev b c) c archive"

definition zw__zlib_huff1 :: "nat \<Rightarrow> 'u zw__zip_details \<Rightarrow> 'u zw__zip_details" where
  "zw__zlib_huff1 n = zw__zlib_huffa (0x30 + of_nat n) 8"

definition zw__zlib_huff2 :: "nat \<Rightarrow> 'u zw__zip_details \<Rightarrow> 'u zw__zip_details" where
  "zw__zlib_huff2 n = zw__zlib_huffa (0x190 + of_nat n - 144) 9"

definition zw__zlib_huff3 :: "nat \<Rightarrow> 'u zw__zip_details \<Rightarrow> 'u zw__zip_details" where
  "zw__zlib_huff3 n = zw__zlib_huffa (0 + of_nat n - 256) 7"

definition zw__zlib_huff4 :: "nat \<Rightarrow> 'u zw__zip_details \<Rightarrow> 'u zw__zip_details" where
  "zw__zlib_huff4 n = zw__zlib_huffa (0xc0 + of_nat n - 280) 8"

definition zw__zlib_huff :: "nat \<Rightarrow> 'u zw__zip_details \<Rightarrow> 'u zw__zip_details" where
  "zw__zlib_huff n =
     (if n \<le> 143 then zw__zlib_huff1 n
      else if n \<le> 255 then zw__zlib_huff2 n
      else if n \<le> 279 then zw__zlib_huff3 n
      else zw__zlib_huff4 n)"

definition zw__zlib_huffb :: "nat \<Rightarrow> 'u zw__zip_details \<Rightarrow> 'u zw__zip_details" where
  "zw__zlib_huffb n = (if n \<le> 143 then zw__zlib_huff1 n else zw__zlib_huff2 n)"

section \<open>The DEFLATE encoder (\<open>zw__flush_input\<close>)\<close>

definition lengthc :: "nat list" where
  "lengthc = [3,4,5,6,7,8,9,10,11,13,15,17,19,23,27,31,35,43,51,59,67,83,99,115,131,163,195,227,258, 259]"

definition lengtheb :: "nat list" where
  "lengtheb = [0,0,0,0,0,0,0, 0, 1, 1, 1, 1, 2, 2, 2, 2, 3, 3, 3, 3, 4, 4, 4,  4,  5,  5,  5,  5,  0]"

definition distc :: "nat list" where
  "distc = [1,2,3,4,5,7,9,13,17,25,33,49,65,97,129,193,257,385,513,769,1025,1537,2049,3073,4097,6145,8193,12289,16385,24577, 32768]"

definition disteb :: "nat list" where
  "disteb = [0,0,0,0,1,1,2, 2, 3, 3, 4, 4, 5, 5,  6,  6,  7,  7,  8,  8,   9,   9,  10,  10,  11,  11,  12,   12,   13,   13]"

text \<open>Pointer arithmetic \<open>p + n\<close> on a byte pointer.\<close>

definition zw__ptr_add :: "zw_ptr \<Rightarrow> nat \<Rightarrow> zw_ptr" where
  "zw__ptr_add p n = (\<lambda>k. p (n + k))"

text \<open>
  The first scan of a hash slot (the loop over \<open>j\<close> that sets \<open>best\<close> and
  \<open>bestloc\<close>). \<open>w\<close> is \<open>archive->window\<close>, \<open>data\<close> is \<open>w + 32768\<close>, and
  \<open>bestloc\<close> is kept as its offset from \<open>w\<close> (\<open>None\<close> for the null pointer).
\<close>

fun zw__scan_best :: "zw_ptr \<Rightarrow> nat \<Rightarrow> nat \<Rightarrow> nat list \<Rightarrow> nat \<times> nat option \<Rightarrow> nat \<times> nat option" where
  "zw__scan_best w i data_len [] bb = bb"
| "zw__scan_best w i data_len (e # es) bb =
     zw__scan_best w i data_len es
       (if e > i then
          (let d = zw__zlib_countm (zw__ptr_add w e) (zw__ptr_add w (32768 + i)) (data_len - i)
           in if d \<ge> fst bb then (d, Some e) else bb)
        else bb)"

text \<open>
  The second scan, at \<open>i + 1\<close>, with its \<open>break\<close>: the result is the new value of
  \<open>bestloc\<close>.
\<close>

fun zw__lazy_scan :: "zw_ptr \<Rightarrow> nat \<Rightarrow> nat \<Rightarrow> nat \<Rightarrow> nat list \<Rightarrow> nat option \<Rightarrow> nat option" where
  "zw__lazy_scan w i data_len best [] bestloc = bestloc"
| "zw__lazy_scan w i data_len best (e # es) bestloc =
     (if e > i + 1 then
        (let e' = zw__zlib_countm (zw__ptr_add w e) (zw__ptr_add w (32768 + i + 1)) (data_len - i - 1)
         in if e' > best then None
            else zw__lazy_scan w i data_len best es bestloc)
      else zw__lazy_scan w i data_len best es bestloc)"

text \<open>
  Trimming an over-long slot and appending \<open>(zw_u16)(i + 32768)\<close>. After the
  \<open>memmove\<close> and the assignment of the count, the live items are the
  \<open>quality\<close> items that started at index \<open>quality\<close>.
\<close>

definition zw__hash_insert :: "'u zw__zip_details \<Rightarrow> nat \<Rightarrow> nat \<Rightarrow> 'u zw__zip_details" where
  "zw__hash_insert archive h i =
     (let hlist = hash_table archive h;
          hlist1 = (case hlist of
                      None \<Rightarrow> None
                    | Some xs \<Rightarrow>
                        if length xs = 2 * quality archive
                        then Some (take (quality archive) (drop (quality archive) xs))
                        else Some xs)
      in archive\<lparr>hash_table := (hash_table archive)(h := zw__sbpush hlist1 ((i + 32768) mod 65536))\<rparr>)"

text \<open>
  The searches \<open>for (j=0; best>lengthc[j+1]-1; ++j);\<close> and
  \<open>for (j=0; d>distc[j+1]-1; ++j);\<close>. The test against the table's length
  stands where the C would read past the table; the source's assertion
  \<open>d <= 32767 && best <= 258\<close> keeps the search inside it.
\<close>

function zw__table_index :: "nat list \<Rightarrow> nat \<Rightarrow> nat \<Rightarrow> nat" where
  "zw__table_index tab v j =
     (if j + 1 < length tab \<and> int v > int (tab ! (j + 1)) - 1
      then zw__table_index tab v (j + 1) else j)"
  by pat_completeness auto
termination
  by (relation "measure (\<lambda>(tab, v, j). length tab - j)") auto

declare zw__table_index.simps [simp del]

definition zw__emit_match :: "nat \<Rightarrow> nat \<Rightarrow> 'u zw__zip_details \<Rightarrow> 'u zw__zip_details" where
  "zw__emit_match best d archive =
     (let j = zw__table_index lengthc best 0;
          archive1 = zw__zlib_huff (j + 257) archive;
          archive2 = (if lengtheb ! j \<noteq> 0
                      then zw__zlib_add (of_int (int best - int (lengthc ! j))) (lengtheb ! j) archive1
                      else archive1);
          k = zw__table_index distc d 0;
          archive3 = zw__zlib_add (zw__zlib_bitrev (of_nat k) 5) 5 archive2;
          archive4 = (if disteb ! k \<noteq> 0
                      then zw__zlib_add (of_int (int d - int (distc ! k))) (disteb ! k) archive3
                      else archive3)
      in archive4)"

text \<open>The hash slot index of the three bytes at \<open>data + i\<close>.\<close>

definition zw__slot :: "zw_ptr \<Rightarrow> nat \<Rightarrow> nat" where
  "zw__slot w i = unat (zw__zhash (zw__ptr_add w (32768 + i)) AND (of_nat zw__hash_size - 1))"

text \<open>
  One round of the \<open>while (i < data_len-3)\<close> loop: the new archive and the new
  \<open>i\<close>. The distance is \<open>(zw_u16)(data + i - bestloc)\<close>.
\<close>

definition zw__flush_iter :: "'u zw__zip_details \<Rightarrow> nat \<Rightarrow> nat \<Rightarrow> 'u zw__zip_details \<times> nat" where
  "zw__flush_iter archive data_len i =
     (let h = zw__slot (window archive) i;
          (best, bestloc) =
             zw__scan_best (window archive) i data_len (zw__sbitems (hash_table archive h)) (3, None);
          archive1 = zw__hash_insert archive h i;
          bestloc1 = (case bestloc of
                        None \<Rightarrow> None
                      | Some loc \<Rightarrow>
                          zw__lazy_scan (window archive1) i data_len best
                            (zw__sbitems (hash_table archive1 (zw__slot (window archive1) (i + 1))))
                            (Some loc))
      in case bestloc1 of
           Some loc \<Rightarrow>
             (zw__emit_match best (nat ((32768 + int i - int loc) mod 65536)) archive1, i + best)
         | None \<Rightarrow>
             (zw__zlib_huffb (unat (window archive1 (32768 + i))) archive1, i + 1))"

lemma zw__scan_best_ge: "fst bb \<le> fst (zw__scan_best w i data_len es bb)"
proof (induction es arbitrary: bb)
  case Nil
  show ?case by simp
next
  case (Cons e es)
  have "fst bb \<le> fst (if e > i then
          (let d = zw__zlib_countm (zw__ptr_add w e) (zw__ptr_add w (32768 + i)) (data_len - i)
           in if d \<ge> fst bb then (d, Some e) else bb)
        else bb)"
    by (simp add: Let_def)
  also note Cons.IH
  finally show ?case by simp
qed

lemma zw__flush_iter_advances: "i < snd (zw__flush_iter archive data_len i)"
proof -
  obtain best bestloc where sb:
    "zw__scan_best (window archive) i data_len
       (zw__sbitems (hash_table archive (zw__slot (window archive) i))) (3, None) = (best, bestloc)"
    by (cases "zw__scan_best (window archive) i data_len
       (zw__sbitems (hash_table archive (zw__slot (window archive) i))) (3, None)")
  have "3 \<le> best"
    using zw__scan_best_ge [of "(3, None)" "window archive" i data_len
        "zw__sbitems (hash_table archive (zw__slot (window archive) i))"] sb
    by simp
  then show ?thesis
    by (simp add: zw__flush_iter_def Let_def sb split: option.splits)
qed

function zw__flush_loop :: "'u zw__zip_details \<Rightarrow> nat \<Rightarrow> nat \<Rightarrow> 'u zw__zip_details \<times> nat" where
  "zw__flush_loop archive data_len i =
     (if i + 3 < data_len
      then zw__flush_loop (fst (zw__flush_iter archive data_len i)) data_len
             (snd (zw__flush_iter archive data_len i))
      else (archive, i))"
  by pat_completeness auto
termination
proof (relation "measure (\<lambda>(archive, data_len, i). data_len - i)")
  show "wf (measure (\<lambda>(archive :: 'u zw__zip_details, data_len, i). data_len - i))"
    by simp
next
  fix archive :: "'u zw__zip_details" and data_len i :: nat
  assume "i + 3 < data_len"
  then show "((fst (zw__flush_iter archive data_len i), data_len,
               snd (zw__flush_iter archive data_len i)), archive, data_len, i)
             \<in> measure (\<lambda>(archive, data_len, i). data_len - i)"
    using zw__flush_iter_advances [of i archive data_len] by simp
qed

declare zw__flush_loop.simps [simp del]

text \<open>The loop \<open>for (; i < data_len; ++i) zw__zlib_huffb(data[i]);\<close>.\<close>

function zw__flush_tail :: "'u zw__zip_details \<Rightarrow> nat \<Rightarrow> nat \<Rightarrow> 'u zw__zip_details" where
  "zw__flush_tail archive data_len i =
     (if i < data_len
      then zw__flush_tail (zw__zlib_huffb (unat (window archive (32768 + i))) archive) data_len (i + 1)
      else archive)"
  by pat_completeness auto
termination
  by (relation "measure (\<lambda>(archive, data_len, i). data_len - i)") auto

declare zw__flush_tail.simps [simp del]

text \<open>Sliding one hash slot: the inner loop over \<open>j\<close> and the new count.\<close>

definition zw__slide_slot :: "nat \<Rightarrow> nat zw__sb \<Rightarrow> nat zw__sb" where
  "zw__slide_slot cursor hlist =
     (case hlist of
        None \<Rightarrow> None
      | Some xs \<Rightarrow> Some (map (\<lambda>ofs. ofs - cursor) (filter (\<lambda>ofs. ofs \<ge> cursor) xs)))"

definition zw__flush_input :: "'u zw__zip_details \<Rightarrow> 'u zw__zip_details" where
  "zw__flush_input archive =
     (let data_len = in_cursor archive
      in if data_len = 0 then archive
         else
           (let (archive1, i) = zw__flush_loop archive data_len 0;
                archive2 = zw__flush_tail archive1 data_len i;
                archive3 = archive2\<lparr>hash_table :=
                  (\<lambda>h. if h < zw__hash_size
                        then zw__slide_slot (in_cursor archive2) (hash_table archive2 h)
                        else hash_table archive2 h)\<rparr>;
                archive4 = archive3\<lparr>window :=
                  (\<lambda>k. if k < 32768 then window archive3 (in_cursor archive3 + k)
                        else window archive3 k)\<rparr>;
                cf = current_file archive4;
                data = map (\<lambda>k. window archive4 (32768 + k)) [0..<data_len];
                archive5 = archive4\<lparr>current_file :=
                  cf\<lparr>uncompressed_size := uncompressed_size cf + of_nat data_len,
                     crc := zw__crc32 data (crc cf)\<rparr>\<rparr>
            in archive5\<lparr>in_cursor := 0\<rparr>))"

section \<open>ZIP records\<close>

text \<open>
  The records are packed structs (\<open>#pragma pack(push, 1)\<close>) that the code
  hands to the sink as raw memory. Their bytes are those of a little-endian
  host, which the ZIP format requires and the code relies on.
\<close>

definition zw__le16 :: "zw_u16 \<Rightarrow> zw_u8 list" where
  "zw__le16 v = map (\<lambda>k. ucast (drop_bit (8 * k) v)) [0..<2]"

definition zw__le32 :: "zw_u32 \<Rightarrow> zw_u8 list" where
  "zw__le32 v = map (\<lambda>k. ucast (drop_bit (8 * k) v)) [0..<4]"

definition zw__le64 :: "zw_u64 \<Rightarrow> zw_u8 list" where
  "zw__le64 v = map (\<lambda>k. ucast (drop_bit (8 * k) v)) [0..<8]"

definition zw__zip_sig_local_file_header :: zw_u32 where
  "zw__zip_sig_local_file_header = 0x04034b50"

definition zw__zip_sig_central_dir_file_header :: zw_u32 where
  "zw__zip_sig_central_dir_file_header = 0x02014b50"

definition zw__zip_sig_eocd :: zw_u32 where
  "zw__zip_sig_eocd = 0x06054b50"

definition zw__zip_sig_eocd64 :: zw_u32 where
  "zw__zip_sig_eocd64 = 0x06064b50"

definition zw__zip_sig_eocdloc64 :: zw_u32 where
  "zw__zip_sig_eocdloc64 = 0x07064b50"

definition zw__zip_info64_id :: zw_u16 where
  "zw__zip_info64_id = 0x0001"

definition zw__zip_file_system_fat :: zw_u8 where
  "zw__zip_file_system_fat = 0"

definition zw__zip_compression_method_deflate :: zw_u16 where
  "zw__zip_compression_method_deflate = 8"

definition zw__zip_flag_has_data_desc :: zw_u16 where
  "zw__zip_flag_has_data_desc = push_bit 3 1"

text \<open>\<open>zw__zip_local_file_header\<close>, field by field (30 bytes).\<close>

definition zw__zip_local_file_header ::
    "zw_u32 \<Rightarrow> zw_u16 \<Rightarrow> zw_u16 \<Rightarrow> zw_u16 \<Rightarrow> zw_u16 \<Rightarrow> zw_u16 \<Rightarrow> zw_u32 \<Rightarrow> zw_u32 \<Rightarrow> zw_u32 \<Rightarrow> zw_u16 \<Rightarrow> zw_u16
     \<Rightarrow> zw_u8 list" where
  "zw__zip_local_file_header signature version flags compression_method file_time file_date
       crc32 compressed uncompressed file_name_length extra_field_length =
     zw__le32 signature @ zw__le16 version @ zw__le16 flags @ zw__le16 compression_method
     @ zw__le16 file_time @ zw__le16 file_date @ zw__le32 crc32 @ zw__le32 compressed
     @ zw__le32 uncompressed @ zw__le16 file_name_length @ zw__le16 extra_field_length"

text \<open>\<open>zw__zip_data_descriptor\<close> (12 bytes).\<close>

record zw__zip_data_descriptor =
  dd_crc :: zw_u32
  dd_compressed_size :: zw_u32
  dd_uncompressed_size :: zw_u32

definition zw__data_descriptor_bytes :: "zw__zip_data_descriptor \<Rightarrow> zw_u8 list" where
  "zw__data_descriptor_bytes data_desc =
     zw__le32 (dd_crc data_desc) @ zw__le32 (dd_compressed_size data_desc)
     @ zw__le32 (dd_uncompressed_size data_desc)"

text \<open>\<open>zw__zip_central_dir_file_header\<close>, field by field (46 bytes).\<close>

definition zw__zip_central_dir_file_header ::
    "zw_u32 \<Rightarrow> zw_u8 \<Rightarrow> zw_u8 \<Rightarrow> zw_u16 \<Rightarrow> zw_u16 \<Rightarrow> zw_u16 \<Rightarrow> zw_u16 \<Rightarrow> zw_u16 \<Rightarrow> zw_u32 \<Rightarrow> zw_u32 \<Rightarrow> zw_u32
     \<Rightarrow> zw_u16 \<Rightarrow> zw_u16 \<Rightarrow> zw_u16 \<Rightarrow> zw_u16 \<Rightarrow> zw_u16 \<Rightarrow> zw_u32 \<Rightarrow> zw_u32 \<Rightarrow> zw_u8 list" where
  "zw__zip_central_dir_file_header signature spec_version file_system required_version flags
       compression_method file_time file_date crc32 compressed uncompressed file_name_length
       extra_field_length file_comment_length start_disk internal_attributes
       external_attributes local_header_relative_offset =
     zw__le32 signature @ [spec_version] @ [file_system] @ zw__le16 required_version
     @ zw__le16 flags @ zw__le16 compression_method @ zw__le16 file_time @ zw__le16 file_date
     @ zw__le32 crc32 @ zw__le32 compressed @ zw__le32 uncompressed
     @ zw__le16 file_name_length @ zw__le16 extra_field_length @ zw__le16 file_comment_length
     @ zw__le16 start_disk @ zw__le16 internal_attributes @ zw__le32 external_attributes
     @ zw__le32 local_header_relative_offset"

text \<open>\<open>zw__zip_info64\<close>: the extra header and three 64-bit fields (28 bytes).\<close>

definition zw__zip_info64 :: "zw_u16 \<Rightarrow> zw_u16 \<Rightarrow> zw_u64 \<Rightarrow> zw_u64 \<Rightarrow> zw_u64 \<Rightarrow> zw_u8 list" where
  "zw__zip_info64 header_id header_length uncompressed compressed local_header_relative_offset =
     zw__le16 header_id @ zw__le16 header_length @ zw__le64 uncompressed @ zw__le64 compressed
     @ zw__le64 local_header_relative_offset"

text \<open>\<open>zw__zip_end_of_central_dir_64\<close> (56 bytes).\<close>

definition zw__zip_end_of_central_dir_64 ::
    "zw_u32 \<Rightarrow> zw_u64 \<Rightarrow> zw_u16 \<Rightarrow> zw_u16 \<Rightarrow> zw_u32 \<Rightarrow> zw_u32 \<Rightarrow> zw_u64 \<Rightarrow> zw_u64 \<Rightarrow> zw_u64 \<Rightarrow> zw_u64
     \<Rightarrow> zw_u8 list" where
  "zw__zip_end_of_central_dir_64 signature end_of_central_dir_64_size writer_version
       required_version current_disk central_dir_disk num_central_dir_recs_disk
       num_central_dir_recs_total central_dir_size central_dir_offset =
     zw__le32 signature @ zw__le64 end_of_central_dir_64_size @ zw__le16 writer_version
     @ zw__le16 required_version @ zw__le32 current_disk @ zw__le32 central_dir_disk
     @ zw__le64 num_central_dir_recs_disk @ zw__le64 num_central_dir_recs_total
     @ zw__le64 central_dir_size @ zw__le64 central_dir_offset"

text \<open>\<open>zw__zip_end_of_central_dir_locator_64\<close> (20 bytes).\<close>

definition zw__zip_end_of_central_dir_locator_64 ::
    "zw_u32 \<Rightarrow> zw_u32 \<Rightarrow> zw_u64 \<Rightarrow> zw_u32 \<Rightarrow> zw_u8 list" where
  "zw__zip_end_of_central_dir_locator_64 signature end_of_central_dir_64_disk
       end_of_central_dir_64_offset num_total_disks =
     zw__le32 signature @ zw__le32 end_of_central_dir_64_disk
     @ zw__le64 end_of_central_dir_64_offset @ zw__le32 num_total_disks"

text \<open>
  \<open>zw__zip_end_of_central_dir\<close> (22 bytes) as \<open>zw_finish\<close> fills it: every byte
  \<open>0xff\<close>, then the signature (bytes 0 to 3) and the comment length
  (bytes 20 and 21) assigned.
\<close>

definition zw__zip_end_of_central_dir :: "zw_u32 \<Rightarrow> zw_u16 \<Rightarrow> zw_u8 list" where
  "zw__zip_end_of_central_dir signature comment_length =
     zw__le32 signature @ replicate 16 0xff @ zw__le16 comment_length"

section \<open>Archive functionality\<close>

definition zw__append_to_central_dir ::
    "'u zw__zip_details \<Rightarrow> zw_u8 list \<Rightarrow> bool \<times> 'u zw__zip_details" where
  "zw__append_to_central_dir archive data =
     (if length data = 0 then (True, archive)
      else (True, archive\<lparr>central_dir := Some (zw__sbitems (central_dir archive) @ data)\<rparr>))"

text \<open>The C \<open>struct tm\<close> fields that \<open>zw_create_ex\<close> reads from \<open>localtime\<close>.\<close>

record zw_tm =
  tm_year :: int
  tm_mon :: int
  tm_mday :: int
  tm_hour :: int
  tm_min :: int
  tm_sec :: int

text \<open>
  \<open>zw_zip_options\<close>: the stream a caller supplies, its function pointers
  beside it (\<open>None\<close> for a null pointer).
\<close>

record 'u zw_zip_options =
  opt_stream :: "'u zw_output_stream"
  opt_write :: "'u zw_write_fn option"
  opt_close :: "'u zw_close_fn option"

text \<open>
  \<open>zw_create_ex\<close>. The wall clock is the argument \<open>local\<close>; \<open>ZW_MALLOC\<close> is
  taken to succeed. The block is zeroed by \<open>memset\<close>, so every field not
  assigned is zero and every hash slot is \<open>NULL\<close>.
\<close>

definition zw_create_ex :: "'u zw_zip_options option \<Rightarrow> zw_tm \<Rightarrow> 'u zw_zip" where
  "zw_create_ex options local =
     (case options of
        None \<Rightarrow> None
      | Some opts \<Rightarrow>
          (case opt_write opts of
             None \<Rightarrow> None
           | Some wr \<Rightarrow>
               Some \<lparr>magic = zw__archive_magic,
                     bitbuf = 0, bitcount = 0, quality = 8,
                     out = (\<lambda>k. 0), out_cursor = 0, out_total = 32768,
                     window = (\<lambda>k. 0), in_cursor = 0, in_total = 32768,
                     hash_table = (\<lambda>h. None),
                     stream = opt_stream opts, stream_write = wr, stream_close = opt_close opts,
                     offset = 0,
                     current_file = \<lparr>start_offset = 0, compressed_size = 0,
                                      uncompressed_size = 0, crc = 0, name_length = 0,
                                      name = []\<rparr>,
                     time = zw__zip_encode_time (of_int (tm_hour local)) (of_int (tm_min local))
                              (of_int (tm_sec local)),
                     date = zw__zip_encode_date (of_int (tm_year local + 1900))
                              (of_int (tm_mon local + 1)) (of_int (tm_mday local)),
                     central_dir = None, num_files = 0, calls = []\<rparr>))"

text \<open>
  The padding loop of \<open>zw__zip_end_file\<close>:
  \<open>while (archive->bitcount) zw__zlib_add(0,1);\<close>.
\<close>

lemma bitcount_zw__flush_bits: "bitcount (zw__flush_bits archive) = bitcount archive mod 8"
proof (induction archive rule: zw__flush_bits.induct)
  case (1 archive)
  show ?case
  proof (cases "bitcount archive \<ge> 8")
    case True
    have "bitcount (zw__flush_bits archive) = bitcount (zw__flush_bits (zw__flush_byte archive))"
      using True by (subst zw__flush_bits.simps) simp
    also have "\<dots> = (bitcount archive - 8) mod 8"
      using "1.IH" [OF True] by simp
    also have "\<dots> = bitcount archive mod 8"
      using True by (simp add: le_mod_geq)
    finally show ?thesis .
  next
    case False
    then show ?thesis
      by (subst zw__flush_bits.simps) simp
  qed
qed

lemma bitcount_zw__zlib_add:
  "bitcount (zw__zlib_add code codebits archive) = (bitcount archive + codebits) mod 8"
  by (simp add: zw__zlib_add_def bitcount_zw__flush_bits)

function zw__pad_bits :: "'u zw__zip_details \<Rightarrow> 'u zw__zip_details" where
  "zw__pad_bits archive =
     (if bitcount archive \<noteq> 0 then zw__pad_bits (zw__zlib_add 0 1 archive) else archive)"
  by pat_completeness auto
termination
proof (relation "measure (\<lambda>archive. if bitcount archive = 0 then 0
                                    else if bitcount archive mod 8 = 0 then 8
                                    else 8 - bitcount archive mod 8)")
  show "wf (measure (\<lambda>archive :: 'u zw__zip_details. if bitcount archive = 0 then 0
                                    else if bitcount archive mod 8 = 0 then 8
                                    else 8 - bitcount archive mod 8))"
    by simp
next
  fix archive :: "'u zw__zip_details"
  assume nz: "bitcount archive \<noteq> 0"
  have step: "Suc (bitcount archive) mod 8
      = (if bitcount archive mod 8 = 7 then 0 else bitcount archive mod 8 + 1)"
    by presburger
  define r where "r = bitcount archive mod 8"
  have r: "r < 8" by (simp add: r_def)
  show "(zw__zlib_add 0 1 archive, archive)
      \<in> measure (\<lambda>archive. if bitcount archive = 0 then 0
                            else if bitcount archive mod 8 = 0 then 8
                            else 8 - bitcount archive mod 8)"
    using nz r unfolding in_measure bitcount_zw__zlib_add Suc_eq_plus1 [symmetric] step
      r_def [symmetric]
    by (simp split: if_splits, arith)
qed

declare zw__pad_bits.simps [simp del]

text \<open>
  The first half of \<open>zw__zip_end_file\<close>: flush the input, emit the
  end-of-block symbol, pad to a byte boundary, flush the output buffer. This
  is the end of the member's compressed body.
\<close>

definition zw__end_body :: "'u zw__zip_details \<Rightarrow> 'u zw__zip_details" where
  "zw__end_body archive =
     zw__flush_compressed_bytes (zw__pad_bits (zw__zlib_huff 256 (zw__flush_input archive)))"

text \<open>
  \<open>zw__zip_end_file\<close>, on a non-null archive: both callers return before the
  call when the handle is \<open>NULL\<close>.
\<close>

definition zw__zip_end_file :: "'u zw__zip_details \<Rightarrow> bool \<times> 'u zw__zip_details" where
  "zw__zip_end_file archive =
     (if name_length (current_file archive) = 0 then (False, archive)
      else
        (let archive1 = zw__end_body archive;
             data_desc = \<lparr>dd_crc = crc (current_file archive1),
                          dd_compressed_size = NOT 0,
                          dd_uncompressed_size = NOT 0\<rparr>;
             (ok1, archive2) = zw__write_to_stream archive1 (zw__data_descriptor_bytes data_desc)
         in if \<not> ok1 then (False, archive2)
            else
              (let cf = current_file archive2;
                   file_name_length = (of_nat (name_length cf) :: zw_u16);
                   central_header =
                     zw__zip_central_dir_file_header zw__zip_sig_central_dir_file_header 45
                       zw__zip_file_system_fat 45 zw__zip_flag_has_data_desc
                       zw__zip_compression_method_deflate (time archive2) (date archive2)
                       (crc cf) (NOT 0) (NOT 0) file_name_length 28 0 0 0 0 (NOT 0);
                   (ok2, archive3) = zw__append_to_central_dir archive2 central_header
               in if \<not> ok2 then (False, archive3)
                  else
                    (let (ok3, archive4) =
                           zw__append_to_central_dir archive3 (take (unat file_name_length) (name cf))
                     in if \<not> ok3 then (False, archive4)
                        else
                          (let info64 = zw__zip_info64 zw__zip_info64_id (28 - 4)
                                          (uncompressed_size cf) (compressed_size cf)
                                          (start_offset cf);
                               (ok4, archive5) = zw__append_to_central_dir archive4 info64
                           in if \<not> ok4 then (False, archive5)
                              else (True, archive5\<lparr>current_file :=
                                            (current_file archive5)\<lparr>name_length := 0\<rparr>\<rparr>))))))"

text \<open>
  \<open>zw_begin_file\<close>. A path is the bytes of the C string before its
  terminating zero (\<open>None\<close> for a null pointer), so \<open>strlen\<close> is its length.
  The name buffer keeps the bytes copied into it.
\<close>

definition zw_begin_file :: "'u zw_zip \<Rightarrow> zw_u8 list option \<Rightarrow> bool \<times> 'u zw_zip" where
  "zw_begin_file archive file_path =
     (case archive of
        None \<Rightarrow> (False, None)
      | Some a \<Rightarrow>
          (let a1 = snd (zw__zip_end_file a)
           in case file_path of
                None \<Rightarrow> (False, Some a1)
              | Some path \<Rightarrow>
                  if path = [] then (False, Some a1)
                  else
                    (let name_len = (if length path > 0xfffe then 0xfffe else length path);
                         offs = offset a1;
                         local_header =
                           zw__zip_local_file_header zw__zip_sig_local_file_header 45
                             zw__zip_flag_has_data_desc zw__zip_compression_method_deflate
                             (time a1) (date a1) 0 0 0 (of_nat name_len) 0;
                         (ok1, a2) = zw__write_to_stream a1 local_header
                     in if \<not> ok1 then (False, Some a2)
                        else
                          (let (ok2, a3) = zw__write_to_stream a2 (take name_len path)
                           in if \<not> ok2 then (False, Some a3)
                              else
                                (let a4 = a3\<lparr>current_file :=
                                            (current_file a3)\<lparr>name := take name_len path\<rparr>\<rparr>;
                                     a5 = (if num_files a4 \<noteq> 0
                                           then a4\<lparr>hash_table :=
                                             (\<lambda>i. if i < zw__hash_size
                                                   then (case hash_table a4 i of
                                                           None \<Rightarrow> None
                                                         | Some xs \<Rightarrow> Some [])
                                                   else hash_table a4 i)\<rparr>
                                           else a4);
                                     a6 = a5\<lparr>in_cursor := 0, out_cursor := 0,
                                             current_file :=
                                               (current_file a5)\<lparr>name_length := name_len mod 65536,
                                                  compressed_size := 0,
                                                  uncompressed_size := 0,
                                                  crc := 0,
                                                  start_offset := offs\<rparr>,
                                             num_files := num_files a5 + 1\<rparr>;
                                     a7 = zw__zlib_add 1 1 a6;
                                     a8 = zw__zlib_add 1 2 a7
                                 in (True, Some a8))))))"

text \<open>
  The loop of \<open>zw_write\<close>. It has no bound of its own (a batch of 0 bytes
  makes no progress), so it is a partial function: \<open>None\<close> is a loop that
  never ends. \<open>avail\<close>, \<open>batch\<close> and \<open>in_cursor\<close> are \<open>zw_u16\<close>.
\<close>

partial_function (option) zw__write_loop ::
    "'u zw__zip_details \<Rightarrow> zw_u8 list \<Rightarrow> 'u zw__zip_details option" where
  "zw__write_loop archive data =
     (if length data > 0 then
        (let avail = nat ((int (in_total archive) - int (in_cursor archive)) mod 65536);
             batch = (if length data < avail then length data mod 65536 else avail);
             base = 32768 + in_cursor archive;
             archive1 = archive\<lparr>window :=
                          (\<lambda>k. if base \<le> k \<and> k < base + batch then data ! (k - base)
                                else window archive k),
                          in_cursor := (in_cursor archive + batch) mod 65536\<rparr>;
             archive2 = (if in_cursor archive1 = in_total archive1
                         then zw__flush_input archive1 else archive1)
         in zw__write_loop archive2 (drop batch data))
      else Some archive)"

declare zw__write_loop.simps [code]

definition zw_write :: "'u zw_zip \<Rightarrow> zw_u8 list \<Rightarrow> (bool \<times> 'u zw_zip) option" where
  "zw_write archive data =
     (case archive of
        None \<Rightarrow> Some (False, None)
      | Some a \<Rightarrow>
          if num_files a = 0 then Some (False, Some a)
          else map_option (\<lambda>a'. (True, Some a')) (zw__write_loop a data))"

definition zw_write_text :: "'u zw_zip \<Rightarrow> zw_u8 list \<Rightarrow> (bool \<times> 'u zw_zip) option" where
  "zw_write_text archive text = zw_write archive text"

text \<open>\<open>if (result && !zw__write_to_stream(archive, data, size)) result = zw_false;\<close>\<close>

definition zw__write_if ::
    "bool \<Rightarrow> 'u zw__zip_details \<Rightarrow> zw_u8 list \<Rightarrow> bool \<times> 'u zw__zip_details" where
  "zw__write_if result archive data =
     (if result then zw__write_to_stream archive data else (False, archive))"

text \<open>
  \<open>zw_finish\<close>. The second component is the archive block as the call leaves
  it, kept for its trace and its stream: the block is released exactly when
  \<open>ArchiveFree\<close> is in the trace.
\<close>

definition zw_finish :: "'u zw_zip \<Rightarrow> bool \<times> 'u zw_zip" where
  "zw_finish archive =
     (case archive of
        None \<Rightarrow> (False, None)
      | Some a \<Rightarrow>
          (let a1 = snd (zw__zip_end_file a);
               a2 = a1\<lparr>hash_table := (\<lambda>i. if i < zw__hash_size then None else hash_table a1 i)\<rparr>;
               offs = offset a2;
               central_dir_size = zw__sbcount (central_dir a2);
               (result1, a3) = zw__write_if True a2 (zw__sbitems (central_dir a2));
               a4 = a3\<lparr>central_dir := None\<rparr>;
               eocd64 = zw__zip_end_of_central_dir_64 zw__zip_sig_eocd64 (56 - 12) 45 45 0 0
                          (num_files a4) (num_files a4) (of_nat central_dir_size) offs;
               offs1 = offs + of_nat central_dir_size;
               (result2, a5) = zw__write_if result1 a4 eocd64;
               eocdloc64 = zw__zip_end_of_central_dir_locator_64 zw__zip_sig_eocdloc64 0 offs1 1;
               (ok3, a6) = zw__write_to_stream a5 eocdloc64;
               result3 = (if \<not> ok3 then False else result2);
               eocd = zw__zip_end_of_central_dir zw__zip_sig_eocd 0
           in if result3 \<and> \<not> fst (zw__write_to_stream a6 eocd)
              then (False, Some (snd (zw__write_to_stream a6 eocd)))
              else
                (let a7 = (if result3 then snd (zw__write_to_stream a6 eocd) else a6);
                     a8 = (case stream_close a7 of
                             None \<Rightarrow> a7
                           | Some cl \<Rightarrow> a7\<lparr>stream := cl (stream a7),
                                             calls := calls a7 @ [SinkClose]\<rparr>);
                     result4 = (if error (stream a8) \<noteq> 0 then False else result3)
                 in (result4, Some (a8\<lparr>calls := calls a8 @ [ArchiveFree]\<rparr>)))))"

section \<open>A test sink and its sessions\<close>

text \<open>
  A caller's sink for the scenarios below: it takes bytes until \<open>limit\<close>
  bytes in total have been taken and writes short from then on, without
  setting the error field itself; its user data counts the bytes taken. Its
  \<open>close\<close> does nothing. \<open>zw_session limit\<close> is the session
  \<open>zw_create_ex\<close> returns for it, the clock reading 2024-06-15 13:45:32.
\<close>

definition zw_limit_write :: "nat \<Rightarrow> nat zw_write_fn" where
  "zw_limit_write limit st buf =
     (let n = min (length buf) (limit - user_data st)
      in (n, st\<lparr>user_data := user_data st + n\<rparr>))"

definition zw_limit_options :: "nat \<Rightarrow> nat zw_zip_options" where
  "zw_limit_options limit =
     \<lparr>opt_stream = \<lparr>user_data = 0, error = 0\<rparr>,
      opt_write = Some (zw_limit_write limit),
      opt_close = Some (\<lambda>st. st)\<rparr>"

definition zw_clock :: zw_tm where
  "zw_clock = \<lparr>tm_year = 124, tm_mon = 5, tm_mday = 15, tm_hour = 13, tm_min = 45, tm_sec = 32\<rparr>"

definition zw_session :: "nat \<Rightarrow> nat zw_zip" where
  "zw_session limit = zw_create_ex (Some (zw_limit_options limit)) zw_clock"


text \<open>
  The session after \<open>zw_begin_file\<close> of a member named \<open>a\<close> on a sink with
  room for 1000 bytes, and the session after a further \<open>zw_begin_file\<close> with
  an empty path, which ends that member and starts none.
\<close>

definition zw_member_session :: "nat zw_zip" where
  "zw_member_session = snd (zw_begin_file (zw_session 1000) (Some [0x61]))"

definition zw_idle_session :: "nat zw_zip" where
  "zw_idle_session = snd (zw_begin_file zw_member_session (Some []))"

text \<open>
  The same on a sink with room for 31 bytes, exactly the local header and the
  name: the session after \<open>zw_begin_file\<close> of a member \<open>a\<close>, and the session
  after a second \<open>zw_begin_file\<close> (of \<open>b\<close>), whose writes the sink refuses.
\<close>

definition zw_short_session :: "nat zw_zip" where
  "zw_short_session = snd (zw_begin_file (zw_session 31) (Some [0x61]))"

definition zw_latched_session :: "nat zw_zip" where
  "zw_latched_session = snd (zw_begin_file zw_short_session (Some [0x62]))"

text \<open>
  An encoder state in the middle of a flush: the member session with the
  window full of the byte \<open>a\<close>, ten bytes of input, and position 0 already
  entered in the hash table.
\<close>

definition zw_run_session :: "nat zw__zip_details" where
  "zw_run_session =
     (the zw_member_session)\<lparr>window := (\<lambda>k. 0x61), in_cursor := 10,
        hash_table := (\<lambda>h. if h = zw__slot (\<lambda>k. 0x61) 0 then Some [32768] else None)\<rparr>"

text \<open>A fresh session in which hash slot 5 holds sixteen offsets.\<close>

definition zw_full_slot_session :: "nat zw__zip_details" where
  "zw_full_slot_session =
     (the (zw_session 1000))\<lparr>hash_table :=
        (\<lambda>h. if h = 5
              then Some [40000, 40001, 40002, 40003, 40004, 40005, 40006, 40007,
                         40008, 40009, 40010, 40011, 40012, 40013, 40014, 40015]
              else None)\<rparr>"

section \<open>Properties: CRC-32\<close>

text \<open>
  Claim C5. For all byte buffers \<open>buf1\<close> and \<open>buf2\<close> and every prior CRC value,
  \<open>zw__crc32\<close> of the concatenation with initial value \<open>prior\<close> equals
  \<open>zw__crc32\<close> of \<open>buf2\<close> with initial value \<open>zw__crc32 buf1 prior\<close>: the
  computation composes over any split of the input.
\<close>

theorem zw__crc32_append:
  "zw__crc32 (buf1 @ buf2) prior = zw__crc32 buf2 (zw__crc32 buf1 prior)"
  by (simp add: zw__crc32_def)

text \<open>
  Claim C6. \<open>zw__crc32\<close> over the 13 bytes of the ASCII string
  \<open>hello, world!\<close>, with initial value 0, is \<open>0x58988D13\<close>.
\<close>

theorem zw__crc32_hello_world:
  "zw__crc32 (map (of_nat \<circ> of_char) ''hello, world!'') 0 = 0x58988D13"
  by code_simp

section \<open>Properties: MS-DOS time and date\<close>

lemma ucast_u32_u16_small:
  fixes x :: zw_u32
  assumes "uint x < 2 ^ 16"
  shows "unat (ucast x :: zw_u16) = unat x"
proof -
  have "uint (ucast x :: zw_u16) = take_bit 16 (uint x)"
    by (simp add: unsigned_ucast_eq)
  also have "\<dots> = uint x"
    using assms by (simp add: take_bit_int_eq_self)
  finally have "uint (ucast x :: zw_u16) = uint x" .
  then show ?thesis
    by (metis unat_eq_nat_uint)
qed

lemma uint_push_bit_bound:
  fixes x :: zw_u32
  assumes "uint x \<le> k" "k * 2 ^ n < 2 ^ 16"
  shows "uint (push_bit n x) < 2 ^ 16"
proof -
  have "uint (push_bit n x) = take_bit 32 (push_bit n (uint x))"
    by (simp add: unsigned_push_bit_eq)
  also have "\<dots> \<le> push_bit n (uint x)"
    by (simp add: take_bit_int_less_eq_self_iff)
  also have "\<dots> = uint x * 2 ^ n" by (simp add: push_bit_eq_mult)
  also have "\<dots> \<le> k * 2 ^ n" using assms(1) by (simp add: mult_right_mono)
  finally show ?thesis using assms(2) by simp
qed

lemma uint_half_bound:
  fixes x :: zw_u32
  assumes "uint x \<le> 59"
  shows "uint (x div 2) < 2 ^ 16"
proof -
  have "uint (x div 2) = uint x div 2"
    by (simp add: uint_div)
  also have "\<dots> \<le> uint x div 1"
    by (rule zdiv_mono2) simp_all
  finally show ?thesis using assms by simp
qed

text \<open>
  Claim C7. For every in-range local time (hour at most 23, minute and second
  at most 59, year from 1980 to 2107, month from 1 to 12, day from 1 to 31)
  the encoded time is \<open>second/2 | minute<<5 | hour<<11\<close> and the encoded date
  is \<open>day | month<<5 | (year-1980)<<9\<close>, as numbers (the 16-bit result loses
  no bit); for 2024-06-15 13:45:32 the date is \<open>0x58CF\<close> and the time is
  \<open>0x6DB0\<close>.
\<close>

theorem zw__zip_encode_in_range:
  fixes hour minute second year month day :: zw_u32
  assumes "hour \<le> 23" "minute \<le> 59" "second \<le> 59"
    and "1980 \<le> year" "year \<le> 2107" "1 \<le> month" "month \<le> 12" "1 \<le> day" "day \<le> 31"
  shows "unat (zw__zip_encode_time hour minute second)
           = unat (second div 2 OR push_bit 5 minute OR push_bit 11 hour)
       \<and> unat (zw__zip_encode_date year month day)
           = unat (day OR push_bit 5 month OR push_bit 9 (year - 1980))
       \<and> zw__zip_encode_date 2024 6 15 = 0x58CF
       \<and> zw__zip_encode_time 13 45 32 = 0x6DB0"
proof -
  have h: "uint hour \<le> 23" and m: "uint minute \<le> 59" and s: "uint second \<le> 59"
    and mo: "uint month \<le> 12" and d: "uint day \<le> 31"
    using assms by (simp_all add: word_le_def)
  have "uint (second div 2 OR push_bit 5 minute OR push_bit 11 hour) < 2 ^ 16"
    unfolding uint_or
    using uint_push_bit_bound [OF h, of 11] uint_push_bit_bound [OF m, of 5] uint_half_bound [OF s]
    by (intro OR_upper) simp_all
  then have "unat (ucast (second div 2 OR push_bit 5 minute OR push_bit 11 hour) :: zw_u16)
      = unat (second div 2 OR push_bit 5 minute OR push_bit 11 hour)"
    by (rule ucast_u32_u16_small)
  moreover have "zw__zip_encode_time hour minute second
      = ucast (second div 2 OR push_bit 5 minute OR push_bit 11 hour)"
    using assms(1-3)
    by (simp add: zw__zip_encode_time_def Let_def not_less [symmetric] drop_bit_eq_div)
  ultimately have time_eq: "unat (zw__zip_encode_time hour minute second)
           = unat (second div 2 OR push_bit 5 minute OR push_bit 11 hour)"
    by simp
  have "uint (year - 1980) = uint year - uint (1980 :: zw_u32)"
    using assms(4) by (simp only: uint_minus_simple_alt [symmetric])
  moreover have "uint year \<le> 2107"
    using assms(5) by (simp add: word_le_def)
  ultimately have y: "uint (year - 1980) \<le> 127"
    by simp
  have y': "year - 1980 \<le> 127"
    using y by (simp add: word_le_def)
  have "uint (day OR push_bit 5 month OR push_bit 9 (year - 1980)) < 2 ^ 16"
    unfolding uint_or
    using uint_push_bit_bound [OF y, of 9] uint_push_bit_bound [OF mo, of 5] d
    by (intro OR_upper) simp_all
  then have "unat (ucast (day OR push_bit 5 month OR push_bit 9 (year - 1980)) :: zw_u16)
      = unat (day OR push_bit 5 month OR push_bit 9 (year - 1980))"
    by (rule ucast_u32_u16_small)
  moreover have "zw__zip_encode_date year month day
      = ucast (day OR push_bit 5 month OR push_bit 9 (year - 1980))"
    using assms(4,7,9) y' by (simp add: zw__zip_encode_date_def Let_def not_less [symmetric])
  ultimately have date_eq: "unat (zw__zip_encode_date year month day)
           = unat (day OR push_bit 5 month OR push_bit 9 (year - 1980))"
    by simp
  have "zw__zip_encode_date 2024 6 15 = 0x58CF"
    by (simp add: zw__zip_encode_date_def)
  moreover have "zw__zip_encode_time 13 45 32 = 0x6DB0"
    by (simp add: zw__zip_encode_time_def)
  ultimately show ?thesis
    using time_eq date_eq by simp
qed

theorem zw__zip_encode_in_range_witness:
  "unat (zw__zip_encode_time 23 59 58) = 23 * 2048 + 59 * 32 + 29
   \<and> unat (zw__zip_encode_date 2107 12 31) = 127 * 512 + 12 * 32 + 31"
  using zw__zip_encode_in_range [of 23 59 58 2107 12 31] by simp

section \<open>Properties: common-prefix counting\<close>

lemma zw__countm_loop_unique:
  assumes "i \<le> r" "r \<le> limit" "\<forall>k. i \<le> k \<and> k < r \<longrightarrow> a k = b k" "r < limit \<longrightarrow> a r \<noteq> b r"
  shows "zw__countm_loop a b limit i = r"
  using assms
proof (induction a b limit i rule: zw__countm_loop.induct)
  case (1 a b limit i)
  show ?case
  proof (cases "i < limit")
    case False
    with "1.prems" have "i = r" by simp
    with False show ?thesis by (subst zw__countm_loop.simps) simp
  next
    case True
    show ?thesis
    proof (cases "a i = b i")
      case diff: False
      have "\<not> i < r"
      proof
        assume "i < r"
        with "1.prems"(3) have "a i = b i" by simp
        with diff show False by simp
      qed
      with "1.prems"(1) have "i = r" by simp
      with True diff show ?thesis by (subst zw__countm_loop.simps) simp
    next
      case same: True
      have "i \<noteq> r"
        using "1.prems"(4) True same by auto
      with "1.prems"(1) have "i + 1 \<le> r" by simp
      moreover have "\<forall>k. i + 1 \<le> k \<and> k < r \<longrightarrow> a k = b k"
        using "1.prems"(3) by simp
      ultimately have "zw__countm_loop a b limit (i + 1) = r"
        using "1.IH" [OF True] same "1.prems"(2,4) by simp
      with True same show ?thesis by (subst zw__countm_loop.simps) simp
    qed
  qed
qed

lemma bit_zw__cmpeq_mask:
  "bit (zw__cmpeq_mask a b i) k \<longleftrightarrow> k < 16 \<and> a (i + k) = b (i + k)"
  by (auto simp: zw__cmpeq_mask_def bit_horner_sum_bit_word_iff)

lemma length_takeWhile_stops:
  "\<exists>x \<in> set xs. \<not> P x \<Longrightarrow> length (takeWhile P xs) < length xs"
  by (induction xs) auto

lemma zw__bsf_lowest:
  assumes "m \<noteq> 0"
  shows "zw__bsf m < 32 \<and> bit m (zw__bsf m) \<and> (\<forall>k < zw__bsf m. \<not> bit m k)"
proof -
  let ?P = "\<lambda>k. \<not> bit m k"
  let ?xs = "[0..<32]"
  from assms obtain n where n: "bit m n"
    by (auto simp: bit_eq_iff)
  then have "n < 32"
    using bit_imp_le_length [of m n] by simp
  with n have "\<exists>x \<in> set ?xs. \<not> ?P x" by auto
  then have lt: "length (takeWhile ?P ?xs) < length ?xs"
    by (rule length_takeWhile_stops)
  have stop: "\<not> ?P (?xs ! length (takeWhile ?P ?xs))"
    using lt by (rule nth_length_takeWhile)
  have before: "\<forall>k < length (takeWhile ?P ?xs). ?P k"
  proof (intro allI impI)
    fix k assume k: "k < length (takeWhile ?P ?xs)"
    then have "takeWhile ?P ?xs ! k = ?xs ! k"
      by (rule takeWhile_nth)
    moreover have "takeWhile ?P ?xs ! k \<in> set (takeWhile ?P ?xs)"
      using k by simp
    then have "?P (takeWhile ?P ?xs ! k)"
      by (rule set_takeWhileD [THEN conjunct2])
    moreover have "?xs ! k = k" using k lt by simp
    ultimately show "?P k" by simp
  qed
  from lt stop before show ?thesis
    by (simp add: zw__bsf_def)
qed


lemma zw__countm_sse32_sound:
  assumes "\<forall>k < i. a k = b k" "i \<le> limit"
  shows "case zw__countm_sse32 a b limit i of
           Inl r \<Rightarrow> zw__countm_loop a b limit 0 = r
         | Inr j \<Rightarrow> j \<le> limit \<and> (\<forall>k < j. a k = b k)"
  using assms
proof (induction a b limit i rule: zw__countm_sse32.induct)
  case (1 a b limit i)
  define m where "m = NOT (zw__cmpeq_mask a b i OR push_bit 16 (zw__cmpeq_mask a b (i + 16)))"
  have bit_m: "bit m k \<longleftrightarrow> k < 32 \<and> a (i + k) \<noteq> b (i + k)" for k
  proof (cases "k < 16")
    case True
    then show ?thesis
      by (simp add: m_def bit_simps bit_zw__cmpeq_mask)
  next
    case False
    then have "i + 16 + (k - 16) = i + k" by simp
    with False show ?thesis
      by (auto simp: m_def bit_simps bit_zw__cmpeq_mask)
  qed
  show ?case
  proof (cases "i + 32 \<le> limit")
    case False
    with "1.prems" show ?thesis
      by (subst zw__countm_sse32.simps) simp
  next
    case True
    have unfold: "zw__countm_sse32 a b limit i
        = (if m \<noteq> 0 then Inl (i + zw__bsf m) else zw__countm_sse32 a b limit (i + 32))"
      using True by (subst zw__countm_sse32.simps) (simp only: m_def Let_def if_True)
    show ?thesis
    proof (cases "m = 0")
      case False
      from zw__bsf_lowest [OF False]
      have lo: "zw__bsf m < 32" "bit m (zw__bsf m)" "\<forall>k < zw__bsf m. \<not> bit m k"
        by simp_all
      have "zw__countm_loop a b limit 0 = i + zw__bsf m"
      proof (rule zw__countm_loop_unique)
        show "0 \<le> i + zw__bsf m" by simp
        show "i + zw__bsf m \<le> limit" using lo(1) True by simp
        show "\<forall>k. 0 \<le> k \<and> k < i + zw__bsf m \<longrightarrow> a k = b k"
        proof (intro allI impI)
          fix k assume k: "0 \<le> k \<and> k < i + zw__bsf m"
          show "a k = b k"
          proof (cases "k < i")
            case True
            with "1.prems"(1) show ?thesis by simp
          next
            case False
            then have "k - i < zw__bsf m" using k by simp
            with lo(3) have "\<not> bit m (k - i)" by simp
            moreover have "k - i < 32" using \<open>k - i < zw__bsf m\<close> lo(1) by simp
            ultimately have "a (i + (k - i)) = b (i + (k - i))"
              by (simp add: bit_m)
            with False show ?thesis by simp
          qed
        qed
        show "i + zw__bsf m < limit \<longrightarrow> a (i + zw__bsf m) \<noteq> b (i + zw__bsf m)"
          using lo(2) by (simp add: bit_m)
      qed
      with False show ?thesis
        by (simp add: unfold)
    next
      case zero: True
      have all_eq: "a (i + k) = b (i + k)" if "k < 32" for k
      proof -
        have "\<not> bit m k" using zero by simp
        with that show ?thesis by (simp add: bit_m)
      qed
      have "\<forall>k < i + 32. a k = b k"
      proof (intro allI impI)
        fix k assume k: "k < i + 32"
        show "a k = b k"
        proof (cases "k < i")
          case True
          with "1.prems"(1) show ?thesis by simp
        next
          case False
          then have "k - i < 32" using k by simp
          from all_eq [OF this] False show ?thesis by simp
        qed
      qed
      then have "case zw__countm_sse32 a b limit (i + 32) of
           Inl r \<Rightarrow> zw__countm_loop a b limit 0 = r
         | Inr j \<Rightarrow> j \<le> limit \<and> (\<forall>k < j. a k = b k)"
        using "1.IH" [OF True refl] True zero [unfolded m_def] by simp
      with zero show ?thesis
        by (simp add: unfold)
    qed
  qed
qed


lemma zw__countm_sse16_sound:
  assumes "\<forall>k < i. a k = b k" "i \<le> limit"
  shows "case zw__countm_sse16 a b limit i of
           Inl r \<Rightarrow> zw__countm_loop a b limit 0 = r
         | Inr j \<Rightarrow> j \<le> limit \<and> (\<forall>k < j. a k = b k)"
proof (cases "i + 16 \<le> limit")
  case False
  with assms show ?thesis
    by (simp add: zw__countm_sse16_def)
next
  case True
  define m where "m = zw__cmpeq_mask a b i XOR 0xffff"
  have ffff: "bit (0xffff :: int) k \<longleftrightarrow> k < 16" for k
  proof -
    have eq: "(0xffff :: int) = mask 16" by (simp add: mask_eq_exp_minus_1)
    show ?thesis unfolding eq by (simp add: bit_mask_iff)
  qed
  have bit_m: "bit m k \<longleftrightarrow> k < 16 \<and> a (i + k) \<noteq> b (i + k)" for k
    by (auto simp: m_def bit_xor_iff bit_zw__cmpeq_mask ffff)
  have unfold: "zw__countm_sse16 a b limit i
      = (if m \<noteq> 0 then Inl (i + zw__bsf m) else Inr (i + 16))"
    using True by (simp only: zw__countm_sse16_def m_def Let_def if_True)
  show ?thesis
  proof (cases "m = 0")
    case False
    from zw__bsf_lowest [OF False]
    have lo: "zw__bsf m < 32" "bit m (zw__bsf m)" "\<forall>k < zw__bsf m. \<not> bit m k"
      by simp_all
    from lo(2) have lo16: "zw__bsf m < 16" by (simp add: bit_m)
    have "zw__countm_loop a b limit 0 = i + zw__bsf m"
    proof (rule zw__countm_loop_unique)
      show "0 \<le> i + zw__bsf m" by simp
      show "i + zw__bsf m \<le> limit" using lo16 True by simp
      show "\<forall>k. 0 \<le> k \<and> k < i + zw__bsf m \<longrightarrow> a k = b k"
      proof (intro allI impI)
        fix k assume k: "0 \<le> k \<and> k < i + zw__bsf m"
        show "a k = b k"
        proof (cases "k < i")
          case True
          with assms(1) show ?thesis by simp
        next
          case False
          then have "k - i < zw__bsf m" using k by simp
          with lo(3) have "\<not> bit m (k - i)" by simp
          moreover have "k - i < 16" using \<open>k - i < zw__bsf m\<close> lo16 by simp
          ultimately have "a (i + (k - i)) = b (i + (k - i))"
            by (simp add: bit_m)
          with False show ?thesis by simp
        qed
      qed
      show "i + zw__bsf m < limit \<longrightarrow> a (i + zw__bsf m) \<noteq> b (i + zw__bsf m)"
        using lo(2) by (simp add: bit_m)
    qed
    with False show ?thesis
      by (simp add: unfold)
  next
    case zero: True
    have all_eq: "a (i + k) = b (i + k)" if "k < 16" for k
    proof -
      have "\<not> bit m k" using zero by simp
      with that show ?thesis by (simp add: bit_m)
    qed
    have "\<forall>k < i + 16. a k = b k"
    proof (intro allI impI)
      fix k assume k: "k < i + 16"
      show "a k = b k"
      proof (cases "k < i")
        case True
        with assms(1) show ?thesis by simp
      next
        case False
        then have "k - i < 16" using k by simp
        from all_eq [OF this] False show ?thesis by simp
      qed
    qed
    with True zero show ?thesis
      by (simp add: unfold)
  qed
qed

lemma zw__countm_loop_char:
  assumes "i \<le> limit"
  shows "i \<le> zw__countm_loop a b limit i \<and> zw__countm_loop a b limit i \<le> limit
       \<and> (\<forall>k. i \<le> k \<and> k < zw__countm_loop a b limit i \<longrightarrow> a k = b k)
       \<and> (zw__countm_loop a b limit i < limit
            \<longrightarrow> a (zw__countm_loop a b limit i) \<noteq> b (zw__countm_loop a b limit i))"
  using assms
proof (induction a b limit i rule: zw__countm_loop.induct)
  case (1 a b limit i)
  show ?case
  proof (cases "i < limit \<and> a i = b i")
    case False
    then have "zw__countm_loop a b limit i = i"
      by (subst zw__countm_loop.simps) auto
    with False "1.prems" show ?thesis by auto
  next
    case True
    then have eq: "zw__countm_loop a b limit i = zw__countm_loop a b limit (i + 1)"
      by (subst zw__countm_loop.simps) simp
    have ih: "i + 1 \<le> zw__countm_loop a b limit (i + 1) \<and> zw__countm_loop a b limit (i + 1) \<le> limit
       \<and> (\<forall>k. i + 1 \<le> k \<and> k < zw__countm_loop a b limit (i + 1) \<longrightarrow> a k = b k)
       \<and> (zw__countm_loop a b limit (i + 1) < limit
            \<longrightarrow> a (zw__countm_loop a b limit (i + 1)) \<noteq> b (zw__countm_loop a b limit (i + 1)))"
      using "1.IH" True by simp
    have "a k = b k" if "i \<le> k" "k < zw__countm_loop a b limit (i + 1)" for k
    proof (cases "k = i")
      case True
      with \<open>i < limit \<and> a i = b i\<close> show ?thesis by simp
    next
      case False
      with that ih show ?thesis by simp
    qed
    with ih show ?thesis unfolding eq by simp
  qed
qed

lemma zw__countm_loop_skip:
  assumes "\<forall>k < j. a k = b k" "j \<le> limit"
  shows "zw__countm_loop a b limit 0 = zw__countm_loop a b limit j"
proof (rule zw__countm_loop_unique)
  note c = zw__countm_loop_char [OF assms(2), of a b]
  show "0 \<le> zw__countm_loop a b limit j" by simp
  show "zw__countm_loop a b limit j \<le> limit" using c by simp
  show "\<forall>k. 0 \<le> k \<and> k < zw__countm_loop a b limit j \<longrightarrow> a k = b k"
  proof (intro allI impI)
    fix k assume k: "0 \<le> k \<and> k < zw__countm_loop a b limit j"
    show "a k = b k"
    proof (cases "k < j")
      case True
      with assms(1) show ?thesis by simp
    next
      case False
      with k c show ?thesis by simp
    qed
  qed
  show "zw__countm_loop a b limit j < limit
      \<longrightarrow> a (zw__countm_loop a b limit j) \<noteq> b (zw__countm_loop a b limit j)"
    using c by simp
qed

lemma zw__zlib_countm_sse_eq: "zw__zlib_countm_sse a b limit = zw__zlib_countm a b limit"
proof -
  define L where "L = (if limit > 258 then 258 else limit)"
  have s32: "case zw__countm_sse32 a b L 0 of
           Inl r \<Rightarrow> zw__countm_loop a b L 0 = r
         | Inr j \<Rightarrow> j \<le> L \<and> (\<forall>k < j. a k = b k)"
    by (rule zw__countm_sse32_sound) simp_all
  show ?thesis
  proof (cases "zw__countm_sse32 a b L 0")
    case (Inl r)
    with s32 show ?thesis
      by (simp add: zw__zlib_countm_sse_def zw__zlib_countm_def L_def [symmetric])
  next
    case (Inr j)
    with s32 have j: "j \<le> L" "\<forall>k < j. a k = b k" by simp_all
    have s16: "case zw__countm_sse16 a b L j of
           Inl r \<Rightarrow> zw__countm_loop a b L 0 = r
         | Inr j' \<Rightarrow> j' \<le> L \<and> (\<forall>k < j'. a k = b k)"
      using j by (intro zw__countm_sse16_sound) simp_all
    show ?thesis
    proof (cases "zw__countm_sse16 a b L j")
      case (Inl r)
      with s16 Inr show ?thesis
        by (simp add: zw__zlib_countm_sse_def zw__zlib_countm_def L_def [symmetric])
    next
      case inr2: (Inr j')
      with s16 have "j' \<le> L" "\<forall>k < j'. a k = b k" by simp_all
      then have "zw__countm_loop a b L 0 = zw__countm_loop a b L j'"
        by (intro zw__countm_loop_skip) simp_all
      with Inr inr2 show ?thesis
        by (simp add: zw__zlib_countm_sse_def zw__zlib_countm_def L_def [symmetric])
    qed
  qed
qed

lemma longest_common_prefix_char:
  "length (longest_common_prefix xs ys) \<le> length xs
   \<and> length (longest_common_prefix xs ys) \<le> length ys
   \<and> (\<forall>k < length (longest_common_prefix xs ys). xs ! k = ys ! k)
   \<and> (length (longest_common_prefix xs ys) < length xs
        \<and> length (longest_common_prefix xs ys) < length ys
      \<longrightarrow> xs ! length (longest_common_prefix xs ys) \<noteq> ys ! length (longest_common_prefix xs ys))"
proof (induction xs ys rule: longest_common_prefix.induct)
  case (1 x xs y ys)
  show ?case
  proof (cases "x = y")
    case True
    have "(x # xs) ! k = (y # ys) ! k" if "k < Suc (length (longest_common_prefix xs ys))" for k
      using that "1.IH" [OF True] True by (cases k) simp_all
    with True "1.IH" [OF True] show ?thesis by simp
  next
    case False
    then show ?thesis by simp
  qed
qed simp_all

lemma zw__zlib_countm_prefix:
  assumes "min limit 258 \<le> length xs" "min limit 258 \<le> length ys"
  shows "zw__zlib_countm (nth xs) (nth ys) limit
       = min (min limit 258) (length (longest_common_prefix xs ys))"
proof -
  define L where "L = (if limit > 258 then 258 else limit)"
  have L: "L = min limit 258" by (simp add: L_def)
  define n where "n = length (longest_common_prefix xs ys)"
  note c = longest_common_prefix_char [of xs ys, folded n_def]
  have "zw__countm_loop (nth xs) (nth ys) L 0 = min L n"
  proof (rule zw__countm_loop_unique)
    show "0 \<le> min L n" by simp
    show "min L n \<le> L" by simp
    show "\<forall>k. 0 \<le> k \<and> k < min L n \<longrightarrow> xs ! k = ys ! k"
      using c by simp
    show "min L n < L \<longrightarrow> xs ! min L n \<noteq> ys ! min L n"
      using c assms L by (auto simp: min_def split: if_splits)
  qed
  then show ?thesis
    by (simp add: zw__zlib_countm_def L_def [symmetric] L [symmetric] n_def)
qed

text \<open>
  Claim C10. For all byte buffers and every limit, the SSE path of
  \<open>zw__zlib_countm\<close> returns what the scalar loop returns; and on two buffers
  \<open>xs\<close> and \<open>ys\<close> that hold at least \<open>min limit 258\<close> bytes each (the bytes
  the function may read), the result is the length of their longest common
  prefix capped at \<open>min limit 258\<close>.
\<close>

theorem zw__zlib_countm_refines:
  "zw__zlib_countm_sse a b limit = zw__zlib_countm a b limit
   \<and> (min limit 258 \<le> length xs \<and> min limit 258 \<le> length ys
      \<longrightarrow> zw__zlib_countm (nth xs) (nth ys) limit
          = min (min limit 258) (length (longest_common_prefix xs ys)))"
  using zw__zlib_countm_sse_eq [of a b limit] zw__zlib_countm_prefix [of limit xs ys]
  by simp

theorem zw__zlib_countm_refines_witness:
  "zw__zlib_countm_sse (nth [1, 2, 3, 4]) (nth [1, 2, 9, 4]) 4 = 2
   \<and> zw__zlib_countm (nth [1, 2, 3, 4]) (nth [1, 2, 9, 4]) 4 = 2"
  using zw__zlib_countm_refines [of "nth [1, 2, 3, 4]" "nth [1, 2, 9, 4]" 4 "[1, 2, 3, 4]" "[1, 2, 9, 4]"]
  by simp

section \<open>Frame lemmas\<close>

text \<open>What the bit writer may change.\<close>

definition zw__emits :: "'u zw__zip_details \<Rightarrow> 'u zw__zip_details \<Rightarrow> bool" where
  "zw__emits a b \<longleftrightarrow>
     magic b = magic a \<and> quality b = quality a \<and> out_total b = out_total a
     \<and> window b = window a \<and> in_cursor b = in_cursor a \<and> in_total b = in_total a
     \<and> hash_table b = hash_table a
     \<and> stream_write b = stream_write a \<and> stream_close b = stream_close a
     \<and> time b = time a \<and> date b = date a \<and> central_dir b = central_dir a
     \<and> num_files b = num_files a
     \<and> start_offset (current_file b) = start_offset (current_file a)
     \<and> uncompressed_size (current_file b) = uncompressed_size (current_file a)
     \<and> crc (current_file b) = crc (current_file a)
     \<and> name_length (current_file b) = name_length (current_file a)
     \<and> name (current_file b) = name (current_file a)
     \<and> (\<exists>ws. calls b = calls a @ ws)
     \<and> (error (stream a) \<noteq> 0
          \<longrightarrow> stream b = stream a \<and> offset b = offset a \<and> calls b = calls a)"

lemma zw__emits_refl [simp]: "zw__emits a a"
  by (simp add: zw__emits_def)

lemma zw__emits_trans:
  assumes ab: "zw__emits a b" and bc: "zw__emits b c"
  shows "zw__emits a c"
proof -
  from ab obtain ws1 where ws1: "calls b = calls a @ ws1"
    unfolding zw__emits_def by blast
  from bc obtain ws2 where ws2: "calls c = calls b @ ws2"
    unfolding zw__emits_def by blast
  have ex: "\<exists>ws. calls c = calls a @ ws"
    using ws1 ws2 by simp
  have latched: "stream c = stream a \<and> offset c = offset a \<and> calls c = calls a"
    if "error (stream a) \<noteq> 0"
  proof -
    from ab that have 1: "stream b = stream a \<and> offset b = offset a \<and> calls b = calls a"
      unfolding zw__emits_def by blast
    with that have "error (stream b) \<noteq> 0" by simp
    with bc have "stream c = stream b \<and> offset c = offset b \<and> calls c = calls b"
      unfolding zw__emits_def by blast
    with 1 show ?thesis by simp
  qed
  have fields: "magic c = magic a \<and> quality c = quality a \<and> out_total c = out_total a
     \<and> window c = window a \<and> in_cursor c = in_cursor a \<and> in_total c = in_total a
     \<and> hash_table c = hash_table a
     \<and> stream_write c = stream_write a \<and> stream_close c = stream_close a
     \<and> time c = time a \<and> date c = date a \<and> central_dir c = central_dir a
     \<and> num_files c = num_files a
     \<and> start_offset (current_file c) = start_offset (current_file a)
     \<and> uncompressed_size (current_file c) = uncompressed_size (current_file a)
     \<and> crc (current_file c) = crc (current_file a)
     \<and> name_length (current_file c) = name_length (current_file a)
     \<and> name (current_file c) = name (current_file a)"
    using ab bc unfolding zw__emits_def by simp
  from fields ex latched show ?thesis
    unfolding zw__emits_def by blast
qed

lemma zw__emits_write_to_stream: "zw__emits a (snd (zw__write_to_stream a d))"
  by (simp add: zw__emits_def zw__write_to_stream_def Let_def split: prod.splits)

lemma zw__emits_flush_compressed_bytes: "zw__emits a (zw__flush_compressed_bytes a)"
proof (cases "out_cursor a > 0")
  case False
  then show ?thesis by (simp add: zw__flush_compressed_bytes_def)
next
  case True
  define a1 where "a1 = a\<lparr>current_file := (current_file a)\<lparr>compressed_size :=
      compressed_size (current_file a) + of_nat (out_cursor a)\<rparr>\<rparr>"
  define a2 where "a2 = snd (zw__write_to_stream a1 (map (out a1) [0..<out_cursor a1]))"
  have "zw__emits a a1" by (simp add: zw__emits_def a1_def)
  moreover have "zw__emits a1 a2" unfolding a2_def by (rule zw__emits_write_to_stream)
  moreover have "zw__emits a2 (a2\<lparr>out_cursor := 0\<rparr>)" by (simp add: zw__emits_def)
  ultimately have "zw__emits a (a2\<lparr>out_cursor := 0\<rparr>)"
    by (blast intro: zw__emits_trans)
  moreover have "zw__flush_compressed_bytes a = a2\<lparr>out_cursor := 0\<rparr>"
    using True by (simp add: zw__flush_compressed_bytes_def Let_def a1_def a2_def)
  ultimately show ?thesis by simp
qed

lemma zw__emits_flush_byte: "zw__emits a (zw__flush_byte a)"
proof -
  define a1 where "a1 = a\<lparr>out := (out a)(out_cursor a := ucast (bitbuf a AND 0xff)),
                          out_cursor := out_cursor a + 1\<rparr>"
  define a2 where "a2 = (if out_cursor a1 = out_total a1 then zw__flush_compressed_bytes a1 else a1)"
  have "zw__emits a a1" by (simp add: zw__emits_def a1_def)
  moreover have "zw__emits a1 a2" by (simp add: a2_def zw__emits_flush_compressed_bytes)
  moreover have "zw__emits a2 (a2\<lparr>bitbuf := drop_bit 8 (bitbuf a2), bitcount := bitcount a2 - 8\<rparr>)"
    by (simp add: zw__emits_def)
  ultimately have "zw__emits a (a2\<lparr>bitbuf := drop_bit 8 (bitbuf a2), bitcount := bitcount a2 - 8\<rparr>)"
    by (blast intro: zw__emits_trans)
  moreover have "zw__flush_byte a = a2\<lparr>bitbuf := drop_bit 8 (bitbuf a2), bitcount := bitcount a2 - 8\<rparr>"
    by (simp add: zw__flush_byte_def Let_def a1_def a2_def)
  ultimately show ?thesis by simp
qed

lemma zw__emits_flush_bits: "zw__emits a (zw__flush_bits a)"
proof (induction a rule: zw__flush_bits.induct)
  case (1 archive)
  show ?case
  proof (cases "bitcount archive \<ge> 8")
    case True
    have "zw__emits archive (zw__flush_bits (zw__flush_byte archive))"
      using zw__emits_flush_byte "1.IH" [OF True] by (rule zw__emits_trans)
    with True show ?thesis by (subst zw__flush_bits.simps) simp
  next
    case False
    then show ?thesis by (subst zw__flush_bits.simps) simp
  qed
qed

lemma zw__emits_zlib_add: "zw__emits a (zw__zlib_add code codebits a)"
proof -
  have "zw__emits a (a\<lparr>bitbuf := bitbuf a OR push_bit (bitcount a) code,
                          bitcount := bitcount a + codebits\<rparr>)"
    by (simp add: zw__emits_def)
  then show ?thesis
    unfolding zw__zlib_add_def using zw__emits_flush_bits by (rule zw__emits_trans)
qed

lemma zw__emits_zlib_huff: "zw__emits a (zw__zlib_huff n a)"
  by (simp add: zw__zlib_huff_def zw__zlib_huff1_def zw__zlib_huff2_def zw__zlib_huff3_def
      zw__zlib_huff4_def zw__zlib_huffa_def zw__emits_zlib_add)

lemma zw__emits_zlib_huffb: "zw__emits a (zw__zlib_huffb n a)"
  by (simp add: zw__zlib_huffb_def zw__zlib_huff1_def zw__zlib_huff2_def zw__zlib_huffa_def
      zw__emits_zlib_add)

lemma zw__emits_emit_match: "zw__emits a (zw__emit_match best d a)"
proof -
  define j where "j = zw__table_index lengthc best 0"
  define a1 where "a1 = zw__zlib_huff (j + 257) a"
  define a2 where "a2 = (if lengtheb ! j \<noteq> 0
      then zw__zlib_add (of_int (int best - int (lengthc ! j))) (lengtheb ! j) a1 else a1)"
  define k where "k = zw__table_index distc d 0"
  define a3 where "a3 = zw__zlib_add (zw__zlib_bitrev (of_nat k) 5) 5 a2"
  define a4 where "a4 = (if disteb ! k \<noteq> 0
      then zw__zlib_add (of_int (int d - int (distc ! k))) (disteb ! k) a3 else a3)"
  have "zw__emits a a1" unfolding a1_def by (rule zw__emits_zlib_huff)
  moreover have "zw__emits a1 a2" by (simp add: a2_def zw__emits_zlib_add)
  moreover have "zw__emits a2 a3" unfolding a3_def by (rule zw__emits_zlib_add)
  moreover have "zw__emits a3 a4" by (simp add: a4_def zw__emits_zlib_add)
  ultimately have "zw__emits a a4" by (blast intro: zw__emits_trans)
  moreover have "zw__emit_match best d a = a4"
    unfolding zw__emit_match_def Let_def j_def a1_def a2_def k_def a3_def a4_def ..
  ultimately show ?thesis by simp
qed

lemma zw__emits_pad_bits: "zw__emits a (zw__pad_bits a)"
proof (induction a rule: zw__pad_bits.induct)
  case (1 archive)
  show ?case
  proof (cases "bitcount archive \<noteq> 0")
    case True
    have "zw__emits archive (zw__pad_bits (zw__zlib_add 0 1 archive))"
      using zw__emits_zlib_add "1.IH" [OF True] by (rule zw__emits_trans)
    with True show ?thesis by (subst zw__pad_bits.simps) simp
  next
    case False
    then show ?thesis by (subst zw__pad_bits.simps) simp
  qed
qed

lemma zw__emits_flush_tail: "zw__emits a (zw__flush_tail a data_len i)"
proof (induction a data_len i rule: zw__flush_tail.induct)
  case (1 archive data_len i)
  show ?case
  proof (cases "i < data_len")
    case True
    have "zw__emits archive
        (zw__flush_tail (zw__zlib_huffb (unat (window archive (32768 + i))) archive) data_len (i + 1))"
      using zw__emits_zlib_huffb "1.IH" [OF True] by (rule zw__emits_trans)
    with True show ?thesis by (subst zw__flush_tail.simps) simp
  next
    case False
    then show ?thesis by (subst zw__flush_tail.simps) simp
  qed
qed

lemma zw__emits_hash_table_update:
  "zw__emits a b \<Longrightarrow> zw__emits (a\<lparr>hash_table := t\<rparr>) (b\<lparr>hash_table := t\<rparr>)"
  by (simp add: zw__emits_def)

lemma zw__emits_upto_hash_trans:
  assumes ab: "zw__emits (a\<lparr>hash_table := hash_table b\<rparr>) b"
    and bc: "zw__emits (b\<lparr>hash_table := hash_table c\<rparr>) c"
  shows "zw__emits (a\<lparr>hash_table := hash_table c\<rparr>) c"
proof -
  have "zw__emits (a\<lparr>hash_table := hash_table b, hash_table := hash_table c\<rparr>)
          (b\<lparr>hash_table := hash_table c\<rparr>)"
    using ab by (rule zw__emits_hash_table_update)
  then have "zw__emits (a\<lparr>hash_table := hash_table c\<rparr>) (b\<lparr>hash_table := hash_table c\<rparr>)"
    by simp
  then show ?thesis using bc by (rule zw__emits_trans)
qed

lemma zw__emits_from_hash_update:
  assumes "zw__emits (a\<lparr>hash_table := t\<rparr>) b"
  shows "zw__emits (a\<lparr>hash_table := hash_table b\<rparr>) b"
proof -
  from assms have "hash_table b = t" by (simp add: zw__emits_def)
  with assms show ?thesis by simp
qed

lemma zw__flush_iter_emits:
  "zw__emits (a\<lparr>hash_table := hash_table (fst (zw__flush_iter a data_len i))\<rparr>)
     (fst (zw__flush_iter a data_len i))"
proof -
  define h where "h = zw__slot (window a) i"
  define a1 where "a1 = zw__hash_insert a h i"
  obtain t where a1: "a1 = a\<lparr>hash_table := t\<rparr>"
    by (simp add: a1_def zw__hash_insert_def Let_def)
  have "fst (zw__flush_iter a data_len i) = zw__zlib_huffb (unat (window a1 (32768 + i))) a1
      \<or> (\<exists>best d. fst (zw__flush_iter a data_len i) = zw__emit_match best d a1)"
    by (auto simp: zw__flush_iter_def Let_def h_def a1_def split: prod.splits option.splits)
  then have "zw__emits a1 (fst (zw__flush_iter a data_len i))"
    using zw__emits_zlib_huffb zw__emits_emit_match by metis
  then show ?thesis
    unfolding a1 by (rule zw__emits_from_hash_update)
qed

lemma zw__flush_loop_emits:
  "zw__emits (a\<lparr>hash_table := hash_table (fst (zw__flush_loop a data_len i))\<rparr>)
     (fst (zw__flush_loop a data_len i))"
proof (induction a data_len i rule: zw__flush_loop.induct)
  case (1 archive data_len i)
  show ?case
  proof (cases "i + 3 < data_len")
    case True
    define b where "b = fst (zw__flush_iter archive data_len i)"
    define c where "c = fst (zw__flush_loop b data_len (snd (zw__flush_iter archive data_len i)))"
    have "zw__emits (archive\<lparr>hash_table := hash_table b\<rparr>) b"
      unfolding b_def by (rule zw__flush_iter_emits)
    moreover have "zw__emits (b\<lparr>hash_table := hash_table c\<rparr>) c"
      using "1.IH" [OF True] by (simp add: b_def c_def)
    ultimately have "zw__emits (archive\<lparr>hash_table := hash_table c\<rparr>) c"
      by (rule zw__emits_upto_hash_trans)
    moreover have "fst (zw__flush_loop archive data_len i) = c"
      using True by (subst zw__flush_loop.simps) (simp add: b_def c_def)
    ultimately show ?thesis by simp
  next
    case False
    then show ?thesis by (subst (1 2) zw__flush_loop.simps) simp
  qed
qed

text \<open>What a whole operation on the session leaves alone.\<close>

definition zw__session_frame :: "'u zw__zip_details \<Rightarrow> 'u zw__zip_details \<Rightarrow> bool" where
  "zw__session_frame a b \<longleftrightarrow>
     quality b = quality a \<and> out_total b = out_total a \<and> in_total b = in_total a
     \<and> stream_write b = stream_write a \<and> stream_close b = stream_close a
     \<and> time b = time a \<and> date b = date a \<and> num_files b = num_files a
     \<and> name_length (current_file b) = name_length (current_file a)
     \<and> (\<exists>ws. calls b = calls a @ ws)
     \<and> (error (stream a) \<noteq> 0
          \<longrightarrow> stream b = stream a \<and> offset b = offset a \<and> calls b = calls a)"

lemma zw__session_frame_emits: "zw__emits a b \<Longrightarrow> zw__session_frame a b"
  by (simp add: zw__emits_def zw__session_frame_def)

lemma zw__flush_input_frame: "zw__session_frame a (zw__flush_input a)"
proof (cases "in_cursor a = 0")
  case True
  then show ?thesis by (simp add: zw__flush_input_def zw__session_frame_def)
next
  case False
  define a1 where "a1 = fst (zw__flush_loop a (in_cursor a) 0)"
  define i where "i = snd (zw__flush_loop a (in_cursor a) 0)"
  define a2 where "a2 = zw__flush_tail a1 (in_cursor a) i"
  have "zw__emits (a\<lparr>hash_table := hash_table a1\<rparr>) a1"
    unfolding a1_def by (rule zw__flush_loop_emits)
  moreover have "zw__emits a1 a2" unfolding a2_def by (rule zw__emits_flush_tail)
  ultimately have "zw__emits (a\<lparr>hash_table := hash_table a1\<rparr>) a2"
    by (rule zw__emits_trans)
  then have "zw__session_frame (a\<lparr>hash_table := hash_table a1\<rparr>) a2"
    by (rule zw__session_frame_emits)
  then have f: "zw__session_frame a a2"
    by (simp add: zw__session_frame_def)
  have "\<exists>ht w cf. zw__flush_input a = a2\<lparr>hash_table := ht, window := w,
      current_file := (current_file a2)\<lparr>uncompressed_size := fst cf, crc := snd cf\<rparr>,
      in_cursor := 0\<rparr>"
    using False
    by (simp add: zw__flush_input_def Let_def a1_def i_def a2_def split: prod.splits)
      (metis fst_conv snd_conv)
  then obtain ht w cf where "zw__flush_input a = a2\<lparr>hash_table := ht, window := w,
      current_file := (current_file a2)\<lparr>uncompressed_size := fst cf, crc := snd cf\<rparr>,
      in_cursor := 0\<rparr>"
    by blast
  with f show ?thesis by (simp add: zw__session_frame_def)
qed

lemma in_cursor_zw__flush_input [simp]: "in_cursor (zw__flush_input a) = 0"
  by (simp add: zw__flush_input_def Let_def split: prod.splits)

section \<open>Symbolic execution of the bit writer and the sink adapter\<close>

lemma zw__flush_bits_small: "bitcount a < 8 \<Longrightarrow> zw__flush_bits a = a"
  by (subst zw__flush_bits.simps) simp

lemma zw__flush_bits_big: "8 \<le> bitcount a \<Longrightarrow> zw__flush_bits a = zw__flush_bits (zw__flush_byte a)"
  by (subst zw__flush_bits.simps) simp

lemma zw__pad_bits_done: "bitcount a = 0 \<Longrightarrow> zw__pad_bits a = a"
  by (subst zw__pad_bits.simps) simp

lemma zw__pad_bits_step: "bitcount a \<noteq> 0 \<Longrightarrow> zw__pad_bits a = zw__pad_bits (zw__zlib_add 0 1 a)"
  by (subst zw__pad_bits.simps) simp

lemma zw__zlib_bitrev_loop_zero: "zw__zlib_bitrev_loop 0 n 0 = 0"
  by (induction n) simp_all

lemma zw__zlib_bitrev_zero [simp]: "zw__zlib_bitrev 0 n = 0"
  by (simp add: zw__zlib_bitrev_def zw__zlib_bitrev_loop_zero)

lemma zw__flush_input_empty: "in_cursor a = 0 \<Longrightarrow> zw__flush_input a = a"
  by (simp add: zw__flush_input_def)

text \<open>The two \<open>zw__zlib_add\<close> calls of \<open>zw_begin_file\<close>, and the end of an empty block.\<close>

lemma zw__block_prelude:
  assumes "bitcount a = 0" "bitbuf a = 0"
  shows "zw__zlib_add 1 2 (zw__zlib_add 1 1 a) = a\<lparr>bitbuf := 3, bitcount := 3\<rparr>"
proof -
  have 1: "zw__zlib_add 1 1 a = a\<lparr>bitbuf := 1, bitcount := 1\<rparr>"
    using assms by (simp add: zw__zlib_add_def zw__flush_bits_small)
  have "zw__zlib_add 1 2 (a\<lparr>bitbuf := 1, bitcount := 1\<rparr>) = a\<lparr>bitbuf := 3, bitcount := 3\<rparr>"
    by (simp add: zw__zlib_add_def zw__flush_bits_small)
  with 1 show ?thesis by simp
qed

lemma zw__end_of_block_empty:
  assumes "bitcount a = 3" "bitbuf a = 3" "out_cursor a = 0" "2 < out_total a"
  shows "zw__pad_bits (zw__zlib_huff 256 a)
       = a\<lparr>out := (out a)(0 := 3, 1 := 0), out_cursor := 2, bitbuf := 0, bitcount := 0\<rparr>"
proof -
  define b where "b = a\<lparr>out := (out a)(0 := 3), out_cursor := 1, bitbuf := 0, bitcount := 2\<rparr>"
  have "zw__zlib_huff 256 a = zw__zlib_add 0 7 a"
    by (simp add: zw__zlib_huff_def zw__zlib_huff3_def zw__zlib_huffa_def)
  also have "\<dots> = zw__flush_bits (a\<lparr>bitbuf := 3, bitcount := 10\<rparr>)"
    using assms by (simp add: zw__zlib_add_def)
  also have "\<dots> = zw__flush_bits (zw__flush_byte (a\<lparr>bitbuf := 3, bitcount := 10\<rparr>))"
    by (rule zw__flush_bits_big) simp
  also have "zw__flush_byte (a\<lparr>bitbuf := 3, bitcount := 10\<rparr>) = b"
    using assms by (simp add: zw__flush_byte_def Let_def b_def)
  also have "zw__flush_bits b = b"
    by (rule zw__flush_bits_small) (simp add: b_def)
  finally have huff: "zw__zlib_huff 256 a = b" .
  have step: "zw__zlib_add 0 1 (b\<lparr>bitcount := n\<rparr>) = b\<lparr>bitcount := n + 1\<rparr>" if "n < 7" for n
    using that by (simp add: zw__zlib_add_def zw__flush_bits_small b_def)
  have pad: "zw__pad_bits (b\<lparr>bitcount := n\<rparr>) = zw__pad_bits (b\<lparr>bitcount := n + 1\<rparr>)"
    if "0 < n" "n < 7" for n
    using that step [of n] by (subst zw__pad_bits_step) simp_all
  have "b = b\<lparr>bitcount := 2\<rparr>" by (simp add: b_def)
  then have "zw__pad_bits b = zw__pad_bits (b\<lparr>bitcount := 2\<rparr>)" by simp
  also have "\<dots> = zw__pad_bits (b\<lparr>bitcount := 3\<rparr>)" using pad [of 2] by simp
  also have "\<dots> = zw__pad_bits (b\<lparr>bitcount := 4\<rparr>)" using pad [of 3] by simp
  also have "\<dots> = zw__pad_bits (b\<lparr>bitcount := 5\<rparr>)" using pad [of 4] by simp
  also have "\<dots> = zw__pad_bits (b\<lparr>bitcount := 6\<rparr>)" using pad [of 5] by simp
  also have "\<dots> = zw__pad_bits (b\<lparr>bitcount := 7\<rparr>)" using pad [of 6] by simp
  also have "\<dots> = zw__pad_bits (zw__zlib_add 0 1 (b\<lparr>bitcount := 7\<rparr>))"
    by (rule zw__pad_bits_step) simp
  also have "zw__zlib_add 0 1 (b\<lparr>bitcount := 7\<rparr>) = zw__flush_bits (b\<lparr>bitcount := 8\<rparr>)"
    by (simp add: zw__zlib_add_def b_def)
  also have "\<dots> = zw__flush_bits (zw__flush_byte (b\<lparr>bitcount := 8\<rparr>))"
    by (rule zw__flush_bits_big) simp
  also have "zw__flush_byte (b\<lparr>bitcount := 8\<rparr>)
      = a\<lparr>out := (out a)(0 := 3, 1 := 0), out_cursor := 2, bitbuf := 0, bitcount := 0\<rparr>"
    using assms by (simp add: zw__flush_byte_def Let_def b_def)
  also have "zw__flush_bits (a\<lparr>out := (out a)(0 := 3, 1 := 0), out_cursor := 2, bitbuf := 0, bitcount := 0\<rparr>)
      = a\<lparr>out := (out a)(0 := 3, 1 := 0), out_cursor := 2, bitbuf := 0, bitcount := 0\<rparr>"
    by (rule zw__flush_bits_small) simp
  also have "zw__pad_bits (a\<lparr>out := (out a)(0 := 3, 1 := 0), out_cursor := 2, bitbuf := 0, bitcount := 0\<rparr>)
      = a\<lparr>out := (out a)(0 := 3, 1 := 0), out_cursor := 2, bitbuf := 0, bitcount := 0\<rparr>"
    by (rule zw__pad_bits_done) simp
  finally show ?thesis using huff by simp
qed

lemma length_zw__le16 [simp]: "length (zw__le16 v) = 2" by (simp add: zw__le16_def)
lemma length_zw__le32 [simp]: "length (zw__le32 v) = 4" by (simp add: zw__le32_def)
lemma length_zw__le64 [simp]: "length (zw__le64 v) = 8" by (simp add: zw__le64_def)

lemma length_zw__zip_local_file_header [simp]:
  "length (zw__zip_local_file_header a b c d e f g h i j k) = 30"
  by (simp add: zw__zip_local_file_header_def)

lemma length_zw__data_descriptor_bytes [simp]: "length (zw__data_descriptor_bytes d) = 12"
  by (simp add: zw__data_descriptor_bytes_def)

lemma length_zw__zip_end_of_central_dir_64 [simp]:
  "length (zw__zip_end_of_central_dir_64 a b c d e f g h i j) = 56"
  by (simp add: zw__zip_end_of_central_dir_64_def)

lemma length_zw__zip_end_of_central_dir_locator_64 [simp]:
  "length (zw__zip_end_of_central_dir_locator_64 a b c d) = 20"
  by (simp add: zw__zip_end_of_central_dir_locator_64_def)

lemma length_zw__zip_end_of_central_dir [simp]: "length (zw__zip_end_of_central_dir a b) = 22"
  by (simp add: zw__zip_end_of_central_dir_def)

lemma zw__write_to_stream_shape:
  "snd (zw__write_to_stream a d)
     = a\<lparr>stream := stream (snd (zw__write_to_stream a d)),
          offset := offset (snd (zw__write_to_stream a d)),
          calls := calls (snd (zw__write_to_stream a d))\<rparr>"
  by (simp add: zw__write_to_stream_def Let_def split: prod.splits)

text \<open>A write the limit sink has room for, and one it has no room for.\<close>

lemma zw__write_to_stream_limit:
  assumes "stream_write a = zw_limit_write limit" "error (stream a) = 0" "0 < length d"
    and "user_data (stream a) \<le> limit"
  shows "zw__write_to_stream a d =
     (if user_data (stream a) + length d \<le> limit
      then (True, a\<lparr>stream := (stream a)\<lparr>user_data := user_data (stream a) + length d\<rparr>,
                     offset := offset a + of_nat (length d),
                     calls := calls a @ [SinkWrite d]\<rparr>)
      else (False, a\<lparr>stream := (stream a)\<lparr>user_data := limit, error := 1\<rparr>,
                      offset := offset a + of_nat (limit - user_data (stream a)),
                      calls := calls a @ [SinkWrite d]\<rparr>))"
proof (cases "user_data (stream a) + length d \<le> limit")
  case True
  then have "min (length d) (limit - user_data (stream a)) = length d" by simp
  with True assms show ?thesis
    by (simp add: zw__write_to_stream_def zw_limit_write_def Let_def)
next
  case False
  then have m: "min (length d) (limit - user_data (stream a)) = limit - user_data (stream a)"
    and ne: "limit - user_data (stream a) \<noteq> length d"
    using assms(4) by simp_all
  have "user_data (stream a) + (limit - user_data (stream a)) = limit"
    using assms(4) by simp
  with False assms m ne show ?thesis
    by (simp add: zw__write_to_stream_def zw_limit_write_def Let_def)
qed

section \<open>Lemmas about the session operations\<close>

lemma zw__session_frame_trans:
  assumes ab: "zw__session_frame a b" and bc: "zw__session_frame b c"
  shows "zw__session_frame a c"
proof -
  from ab obtain ws1 where ws1: "calls b = calls a @ ws1"
    unfolding zw__session_frame_def by blast
  from bc obtain ws2 where ws2: "calls c = calls b @ ws2"
    unfolding zw__session_frame_def by blast
  have ex: "\<exists>ws. calls c = calls a @ ws"
    using ws1 ws2 by simp
  have latched: "stream c = stream a \<and> offset c = offset a \<and> calls c = calls a"
    if "error (stream a) \<noteq> 0"
  proof -
    from ab that have 1: "stream b = stream a \<and> offset b = offset a \<and> calls b = calls a"
      unfolding zw__session_frame_def by blast
    with that have "error (stream b) \<noteq> 0" by simp
    with bc have "stream c = stream b \<and> offset c = offset b \<and> calls c = calls b"
      unfolding zw__session_frame_def by blast
    with 1 show ?thesis by simp
  qed
  have fields: "quality c = quality a \<and> out_total c = out_total a \<and> in_total c = in_total a
     \<and> stream_write c = stream_write a \<and> stream_close c = stream_close a
     \<and> time c = time a \<and> date c = date a \<and> num_files c = num_files a
     \<and> name_length (current_file c) = name_length (current_file a)"
    using ab bc unfolding zw__session_frame_def by simp
  from fields ex latched show ?thesis
    unfolding zw__session_frame_def by blast
qed

text \<open>
  The input cursor of a session stays below \<open>in_total\<close>: \<open>zw_create_ex\<close>
  starts it at 0 below 32768, and every flush puts it back to 0.
\<close>

definition zw__ready :: "'u zw__zip_details \<Rightarrow> bool" where
  "zw__ready a \<longleftrightarrow> in_cursor a < in_total a \<and> in_total a < 65536"

lemma zw__write_loop_invariant:
  assumes "zw__ready a" "P a"
    and upd: "\<And>x w c. P x \<Longrightarrow> P (x\<lparr>window := w, in_cursor := c\<rparr>)"
    and fl: "\<And>x. P x \<Longrightarrow> P (zw__flush_input x)"
  shows "\<exists>a'. zw__write_loop a data = Some a' \<and> zw__ready a' \<and> zw__session_frame a a' \<and> P a'"
  using assms(1,2)
proof (induction "length data" arbitrary: a data rule: less_induct)
  case less
  show ?case
  proof (cases "length data > 0")
    case False
    then show ?thesis
      using less.prems by (subst zw__write_loop.simps) (simp add: zw__session_frame_def)
  next
    case True
    define avail where "avail = nat ((int (in_total a) - int (in_cursor a)) mod 65536)"
    define batch where "batch = (if length data < avail then length data mod 65536 else avail)"
    define base where "base = 32768 + in_cursor a"
    define a1 where "a1 = a\<lparr>window :=
                          (\<lambda>k. if base \<le> k \<and> k < base + batch then data ! (k - base)
                                else window a k),
                          in_cursor := (in_cursor a + batch) mod 65536\<rparr>"
    define a2 where "a2 = (if in_cursor a1 = in_total a1 then zw__flush_input a1 else a1)"
    have unfold: "zw__write_loop a data = zw__write_loop a2 (drop batch data)"
      by (subst zw__write_loop.simps)
        (simp only: True if_True Let_def avail_def batch_def base_def a1_def a2_def)
    from less.prems have r: "in_cursor a < in_total a" "in_total a < 65536"
      by (simp_all add: zw__ready_def)
    have avail: "avail = in_total a - in_cursor a"
      using r by (simp add: avail_def nat_diff_distrib' flip: of_nat_diff)
    have batch: "0 < batch" "batch \<le> in_total a - in_cursor a" "batch \<le> length data"
      using r True by (auto simp: batch_def avail)
    have ic1: "in_cursor a1 = in_cursor a + batch" "in_total a1 = in_total a"
      using r batch by (simp_all add: a1_def)
    have f1: "zw__session_frame a a1"
      by (simp add: zw__session_frame_def a1_def)
    have f2: "zw__session_frame a1 a2"
      by (simp add: a2_def zw__flush_input_frame) (simp add: zw__session_frame_def)
    have ready2: "zw__ready a2"
    proof (cases "in_cursor a1 = in_total a1")
      case True
      have "in_total (zw__flush_input a1) = in_total a1"
        using zw__flush_input_frame [of a1] by (simp add: zw__session_frame_def)
      with True r ic1 show ?thesis by (simp add: a2_def zw__ready_def)
    next
      case False
      with r ic1 batch show ?thesis by (simp add: a2_def zw__ready_def)
    qed
    have "P a1" unfolding a1_def using less.prems(2) by (rule upd)
    then have p2: "P a2" by (simp add: a2_def fl)
    have "length (drop batch data) < length data"
      using batch True by simp
    from less.hyps [OF this ready2 p2]
    obtain a' where a': "zw__write_loop a2 (drop batch data) = Some a'" "zw__ready a'"
      "zw__session_frame a2 a'" "P a'"
      by blast
    have "zw__session_frame a a'"
      using f1 f2 a'(3) by (blast intro: zw__session_frame_trans)
    with a' unfold show ?thesis by simp
  qed
qed

lemma zw_begin_file_open:
  assumes "name_length (current_file a) = 0" "bitcount a = 0" "bitbuf a = 0"
    and "zw_begin_file (Some a) (Some path) = (True, Some a1)"
  shows "bitcount a1 = 3 \<and> bitbuf a1 = 3 \<and> in_cursor a1 = 0 \<and> out_cursor a1 = 0
       \<and> out_total a1 = out_total a \<and> in_total a1 = in_total a \<and> quality a1 = quality a
       \<and> compressed_size (current_file a1) = 0 \<and> uncompressed_size (current_file a1) = 0
       \<and> crc (current_file a1) = 0 \<and> name_length (current_file a1) \<noteq> 0
       \<and> start_offset (current_file a1) = offset a
       \<and> central_dir a1 = central_dir a \<and> time a1 = time a \<and> date a1 = date a
       \<and> num_files a1 = num_files a + 1"
proof -
  have e: "zw__zip_end_file a = (False, a)"
    using assms(1) by (simp add: zw__zip_end_file_def)
  from assms(4) have ne: "path \<noteq> []"
    by (auto simp: zw_begin_file_def e)
  define name_len where "name_len = (if length path > 0xfffe then 0xfffe else length path)"
  have nl: "name_len mod 65536 \<noteq> 0"
    using ne by (simp add: name_len_def)
  define hdr where "hdr = zw__zip_local_file_header zw__zip_sig_local_file_header 45
                             zw__zip_flag_has_data_desc zw__zip_compression_method_deflate
                             (time a) (date a) 0 0 0 (of_nat name_len) 0"
  define a2 where "a2 = snd (zw__write_to_stream a hdr)"
  define a3 where "a3 = snd (zw__write_to_stream a2 (take name_len path))"
  obtain s2 o2 c2 where a2: "a2 = a\<lparr>stream := s2, offset := o2, calls := c2\<rparr>"
    using zw__write_to_stream_shape [of a hdr] unfolding a2_def by blast
  obtain s3 o3 c3 where a3: "a3 = a2\<lparr>stream := s3, offset := o3, calls := c3\<rparr>"
    using zw__write_to_stream_shape [of a2 "take name_len path"] unfolding a3_def by blast
  define a6 where "a6 = (let a4 = a3\<lparr>current_file := (current_file a3)\<lparr>name := take name_len path\<rparr>\<rparr>;
                                     a5 = (if num_files a4 \<noteq> 0
                                           then a4\<lparr>hash_table :=
                                             (\<lambda>i. if i < zw__hash_size
                                                   then (case hash_table a4 i of
                                                           None \<Rightarrow> None
                                                         | Some xs \<Rightarrow> Some [])
                                                   else hash_table a4 i)\<rparr>
                                           else a4)
                                 in a5\<lparr>in_cursor := 0, out_cursor := 0,
                                             current_file :=
                                               (current_file a5)\<lparr>name_length := name_len mod 65536,
                                                  compressed_size := 0,
                                                  uncompressed_size := 0,
                                                  crc := 0,
                                                  start_offset := offset a\<rparr>,
                                             num_files := num_files a5 + 1\<rparr>)"
  define ok1 where "ok1 = fst (zw__write_to_stream a hdr)"
  define ok2 where "ok2 = fst (zw__write_to_stream a2 (take name_len path))"
  have w1: "zw__write_to_stream a hdr = (ok1, a2)"
    by (simp add: ok1_def a2_def)
  have w2: "zw__write_to_stream a2 (take name_len path) = (ok2, a3)"
    by (simp add: ok2_def a3_def)
  have "zw_begin_file (Some a) (Some path)
      = (if \<not> ok1 then (False, Some a2)
         else if \<not> ok2 then (False, Some a3)
         else (True, Some (zw__zlib_add 1 2 (zw__zlib_add 1 1 a6))))"
    unfolding zw_begin_file_def option.case e snd_conv Let_def name_len_def [symmetric]
      hdr_def [symmetric] w1 w2 prod.case a6_def
    using ne by simp
  with assms(4) have "a1 = zw__zlib_add 1 2 (zw__zlib_add 1 1 a6)"
    by (simp split: if_splits)
  moreover have "bitcount a6 = 0" "bitbuf a6 = 0"
    using assms(2,3) by (simp_all add: a6_def a3 a2 Let_def)
  ultimately have "a1 = a6\<lparr>bitbuf := 3, bitcount := 3\<rparr>"
    using zw__block_prelude [of a6] by simp
  then show ?thesis
    using nl by (simp add: a6_def a3 a2 Let_def)
qed

lemma zw__end_body_empty:
  assumes "bitcount a = 3" "bitbuf a = 3" "out_cursor a = 0" "2 < out_total a" "in_cursor a = 0"
  shows "zw__end_body a
       = (snd (zw__write_to_stream
                 (a\<lparr>out := (out a)(0 := 3, 1 := 0), out_cursor := 2, bitbuf := 0, bitcount := 0,
                    current_file := (current_file a)\<lparr>compressed_size :=
                       compressed_size (current_file a) + 2\<rparr>\<rparr>)
                 [3, 0]))\<lparr>out_cursor := 0\<rparr>"
proof -
  have "zw__end_body a = zw__flush_compressed_bytes (zw__pad_bits (zw__zlib_huff 256 a))"
    using assms(5) by (simp add: zw__end_body_def zw__flush_input_empty)
  also have "zw__pad_bits (zw__zlib_huff 256 a)
      = a\<lparr>out := (out a)(0 := 3, 1 := 0), out_cursor := 2, bitbuf := 0, bitcount := 0\<rparr>"
    using assms(1-4) by (rule zw__end_of_block_empty)
  finally show ?thesis
    by (simp add: zw__flush_compressed_bytes_def Let_def numeral_2_eq_2)
qed

lemma zw__write_to_stream_True:
  assumes "zw__write_to_stream a d = (True, a')" "d \<noteq> []"
  shows "error (stream a) = 0 \<and> calls a' = calls a @ [SinkWrite d]
       \<and> a' = a\<lparr>stream := stream a', offset := offset a', calls := calls a'\<rparr>"
proof -
  have "a' = snd (zw__write_to_stream a d)" using assms(1) by simp
  then have shape: "a' = a\<lparr>stream := stream a', offset := offset a', calls := calls a'\<rparr>"
    using zw__write_to_stream_shape [of a d] by simp
  from assms show ?thesis
    using shape
    by (auto simp: zw__write_to_stream_def Let_def split: prod.splits if_splits)
qed

lemma zw__append_to_central_dir_eq:
  "zw__append_to_central_dir a d
     = (True, if d = [] then a else a\<lparr>central_dir := Some (zw__sbitems (central_dir a) @ d)\<rparr>)"
  by (simp add: zw__append_to_central_dir_def)

lemma zw__le16_nonempty [simp]: "zw__le16 v \<noteq> []"
  using length_zw__le16 [of v] by (cases "zw__le16 v") simp_all

lemma zw__le32_nonempty [simp]: "zw__le32 v \<noteq> []"
  using length_zw__le32 [of v] by (cases "zw__le32 v") simp_all

lemma zw__zip_central_dir_file_header_nonempty [simp]:
  "zw__zip_central_dir_file_header a b c d e f g h i j k l m n x p q r \<noteq> []"
  by (simp add: zw__zip_central_dir_file_header_def)

lemma zw__zip_info64_nonempty [simp]: "zw__zip_info64 a b c d e \<noteq> []"
  by (simp add: zw__zip_info64_def)

lemma zw__data_descriptor_bytes_nonempty [simp]: "zw__data_descriptor_bytes d \<noteq> []"
  using length_zw__data_descriptor_bytes [of d] by (cases "zw__data_descriptor_bytes d") simp_all

lemma zw__zip_end_file_True:
  assumes "zw__zip_end_file a = (True, a2)"
  defines "b \<equiv> zw__end_body a"
  defines "desc \<equiv> zw__data_descriptor_bytes
      \<lparr>dd_crc = crc (current_file b), dd_compressed_size = NOT 0, dd_uncompressed_size = NOT 0\<rparr>"
  shows "name_length (current_file a) \<noteq> 0 \<and> error (stream b) = 0
       \<and> calls a2 = calls b @ [SinkWrite desc]
       \<and> current_file a2 = (current_file b)\<lparr>name_length := 0\<rparr>
       \<and> central_dir a2 = Some (zw__sbitems (central_dir b)
            @ zw__zip_central_dir_file_header zw__zip_sig_central_dir_file_header 45
                zw__zip_file_system_fat 45 zw__zip_flag_has_data_desc
                zw__zip_compression_method_deflate (time b) (date b)
                (crc (current_file b)) (NOT 0) (NOT 0) (of_nat (name_length (current_file b)))
                28 0 0 0 0 (NOT 0)
            @ take (unat (of_nat (name_length (current_file b)) :: zw_u16)) (name (current_file b))
            @ zw__zip_info64 zw__zip_info64_id 24 (uncompressed_size (current_file b))
                (compressed_size (current_file b)) (start_offset (current_file b)))"
proof -
  have nl: "name_length (current_file a) \<noteq> 0"
    using assms(1) by (cases "name_length (current_file a) = 0") (simp_all add: zw__zip_end_file_def)
  define b2 where "b2 = snd (zw__write_to_stream b desc)"
  define ok where "ok = fst (zw__write_to_stream b desc)"
  have w: "zw__write_to_stream b desc = (ok, b2)" by (simp add: ok_def b2_def)
  have ef: "zw__zip_end_file a =
     (if \<not> ok then (False, b2)
      else (True, (let cf = current_file b2;
                   file_name_length = (of_nat (name_length cf) :: zw_u16);
                   central_header =
                     zw__zip_central_dir_file_header zw__zip_sig_central_dir_file_header 45
                       zw__zip_file_system_fat 45 zw__zip_flag_has_data_desc
                       zw__zip_compression_method_deflate (time b2) (date b2)
                       (crc cf) (NOT 0) (NOT 0) file_name_length 28 0 0 0 0 (NOT 0);
                   b3 = snd (zw__append_to_central_dir b2 central_header);
                   b4 = snd (zw__append_to_central_dir b3 (take (unat file_name_length) (name cf)));
                   info64 = zw__zip_info64 zw__zip_info64_id (28 - 4)
                                          (uncompressed_size cf) (compressed_size cf)
                                          (start_offset cf);
                   b5 = snd (zw__append_to_central_dir b4 info64)
               in b5\<lparr>current_file := (current_file b5)\<lparr>name_length := 0\<rparr>\<rparr>)))"
    using nl
    unfolding zw__zip_end_file_def b_def [symmetric] Let_def desc_def [symmetric] w prod.case
    by (simp add: zw__append_to_central_dir_eq)
  with assms(1) have ok: "ok" by (auto split: if_splits)
  from w ok have wt: "zw__write_to_stream b desc = (True, b2)" by simp
  have d: "desc \<noteq> []" by (simp add: desc_def)
  note t = zw__write_to_stream_True [OF wt d]
  obtain s o' c where b2: "b2 = b\<lparr>stream := s, offset := o', calls := c\<rparr>"
    using t by blast
  have c: "calls b2 = calls b @ [SinkWrite desc]" using t by simp
  from ef ok assms(1) have "a2 = (let cf = current_file b2;
                   file_name_length = (of_nat (name_length cf) :: zw_u16);
                   central_header =
                     zw__zip_central_dir_file_header zw__zip_sig_central_dir_file_header 45
                       zw__zip_file_system_fat 45 zw__zip_flag_has_data_desc
                       zw__zip_compression_method_deflate (time b2) (date b2)
                       (crc cf) (NOT 0) (NOT 0) file_name_length 28 0 0 0 0 (NOT 0);
                   b3 = snd (zw__append_to_central_dir b2 central_header);
                   b4 = snd (zw__append_to_central_dir b3 (take (unat file_name_length) (name cf)));
                   info64 = zw__zip_info64 zw__zip_info64_id (28 - 4)
                                          (uncompressed_size cf) (compressed_size cf)
                                          (start_offset cf);
                   b5 = snd (zw__append_to_central_dir b4 info64)
               in b5\<lparr>current_file := (current_file b5)\<lparr>name_length := 0\<rparr>\<rparr>)"
    by simp
  then have "calls a2 = calls b2 \<and> current_file a2 = (current_file b2)\<lparr>name_length := 0\<rparr>
     \<and> central_dir a2 = Some (zw__sbitems (central_dir b2)
            @ zw__zip_central_dir_file_header zw__zip_sig_central_dir_file_header 45
                zw__zip_file_system_fat 45 zw__zip_flag_has_data_desc
                zw__zip_compression_method_deflate (time b2) (date b2)
                (crc (current_file b2)) (NOT 0) (NOT 0) (of_nat (name_length (current_file b2)))
                28 0 0 0 0 (NOT 0)
            @ take (unat (of_nat (name_length (current_file b2)) :: zw_u16)) (name (current_file b2))
            @ zw__zip_info64 zw__zip_info64_id 24 (uncompressed_size (current_file b2))
                (compressed_size (current_file b2)) (start_offset (current_file b2)))"
    by (simp add: Let_def zw__append_to_central_dir_eq zw__sbitems_def)
  then show ?thesis
    using nl t c by (simp add: b2)
qed

lemma zw__end_body_frame: "zw__session_frame a (zw__end_body a)"
proof -
  have "zw__session_frame a (zw__flush_input a)" by (rule zw__flush_input_frame)
  moreover have "zw__emits (zw__flush_input a) (zw__end_body a)"
    unfolding zw__end_body_def
    by (blast intro: zw__emits_trans zw__emits_zlib_huff zw__emits_pad_bits
        zw__emits_flush_compressed_bytes)
  ultimately show ?thesis
    by (blast intro: zw__session_frame_trans zw__session_frame_emits)
qed

lemma zw__le32_minus_1: "zw__le32 (- 1) = [0xff, 0xff, 0xff, 0xff]"
  by code_simp

lemma zw__zip_local_file_header_nonempty [simp]:
  "zw__zip_local_file_header a b c d e f g h i j k \<noteq> []"
  by (simp add: zw__zip_local_file_header_def)

lemma zw__zip_end_of_central_dir_64_nonempty [simp]:
  "zw__zip_end_of_central_dir_64 a b c d e f g h i j \<noteq> []"
  by (simp add: zw__zip_end_of_central_dir_64_def)

lemma zw__zip_end_of_central_dir_locator_64_nonempty [simp]:
  "zw__zip_end_of_central_dir_locator_64 a b c d \<noteq> []"
  by (simp add: zw__zip_end_of_central_dir_locator_64_def)

lemma zw__zip_end_of_central_dir_nonempty [simp]: "zw__zip_end_of_central_dir a b \<noteq> []"
  by (simp add: zw__zip_end_of_central_dir_def)

lemma zw_member_session_fields:
  "\<exists>a. zw_member_session = Some a \<and> fst (zw_begin_file (zw_session 1000) (Some [0x61]))
     \<and> bitcount a = 3 \<and> bitbuf a = 3 \<and> out_cursor a = 0 \<and> out_total a = 32768
     \<and> in_cursor a = 0 \<and> in_total a = 32768 \<and> quality a = 8
     \<and> stream a = \<lparr>user_data = 31, error = 0\<rparr> \<and> stream_write a = zw_limit_write 1000
     \<and> name_length (current_file a) = 1 \<and> num_files a = 1
     \<and> hash_table a = (\<lambda>h. None)"
  unfolding zw_member_session_def zw_session_def zw_limit_options_def zw_create_ex_def
  by (simp add: zw_begin_file_def zw__zip_end_file_def zw__write_to_stream_def
      Let_def zw_limit_write_def zw__zlib_add_def zw__flush_bits_small)

text \<open>
  The bytes \<open>zw__zip_end_file\<close> appends to the central directory for the
  current member of \<open>b\<close>: header, name and ZIP64 extra.
\<close>

definition zw__central_dir_entry :: "'u zw__zip_details \<Rightarrow> zw_u8 list" where
  "zw__central_dir_entry b =
     zw__zip_central_dir_file_header zw__zip_sig_central_dir_file_header 45
       zw__zip_file_system_fat 45 zw__zip_flag_has_data_desc
       zw__zip_compression_method_deflate (time b) (date b)
       (crc (current_file b)) (NOT 0) (NOT 0) (of_nat (name_length (current_file b)))
       28 0 0 0 0 (NOT 0)
     @ take (unat (of_nat (name_length (current_file b)) :: zw_u16)) (name (current_file b))
     @ zw__zip_info64 zw__zip_info64_id 24 (uncompressed_size (current_file b))
         (compressed_size (current_file b)) (start_offset (current_file b))"

definition zw__descriptor_of :: "'u zw__zip_details \<Rightarrow> zw_u8 list" where
  "zw__descriptor_of b = zw__data_descriptor_bytes
      \<lparr>dd_crc = crc (current_file b), dd_compressed_size = NOT 0, dd_uncompressed_size = NOT 0\<rparr>"

lemma zw__zip_end_file_shape:
  "zw__zip_end_file a =
     (if name_length (current_file a) = 0 then (False, a)
      else if \<not> fst (zw__write_to_stream (zw__end_body a) (zw__descriptor_of (zw__end_body a)))
        then (False, snd (zw__write_to_stream (zw__end_body a) (zw__descriptor_of (zw__end_body a))))
        else (True, (snd (zw__write_to_stream (zw__end_body a) (zw__descriptor_of (zw__end_body a))))
                \<lparr>central_dir := Some (zw__sbitems (central_dir (zw__end_body a))
                                        @ zw__central_dir_entry (zw__end_body a)),
                 current_file := (current_file (zw__end_body a))\<lparr>name_length := 0\<rparr>\<rparr>))"
proof (cases "name_length (current_file a) = 0")
  case True
  then show ?thesis by (simp add: zw__zip_end_file_def)
next
  case False
  define b where "b = zw__end_body a"
  define b2 where "b2 = snd (zw__write_to_stream b (zw__descriptor_of b))"
  define ok where "ok = fst (zw__write_to_stream b (zw__descriptor_of b))"
  have w: "zw__write_to_stream b (zw__data_descriptor_bytes
      \<lparr>dd_crc = crc (current_file b), dd_compressed_size = NOT 0, dd_uncompressed_size = NOT 0\<rparr>)
      = (ok, b2)"
    by (simp add: ok_def b2_def zw__descriptor_of_def)
  obtain s f c where b2: "b2 = b\<lparr>stream := s, offset := f, calls := c\<rparr>"
    using zw__write_to_stream_shape [of b "zw__descriptor_of b"] unfolding b2_def by blast
  have "zw__zip_end_file a =
     (if \<not> ok then (False, b2)
      else (True, b2\<lparr>central_dir := Some (zw__sbitems (central_dir b) @ zw__central_dir_entry b),
                 current_file := (current_file b)\<lparr>name_length := 0\<rparr>\<rparr>))"
    using False
    unfolding zw__zip_end_file_def b_def [symmetric] Let_def w prod.case
    by (simp add: zw__append_to_central_dir_eq zw__central_dir_entry_def zw__sbitems_def b2)
  then show ?thesis
    using False by (simp add: ok_def b2_def b_def)
qed

lemma zw__zip_end_file_frame:
  "quality (snd (zw__zip_end_file a)) = quality a
   \<and> out_total (snd (zw__zip_end_file a)) = out_total a
   \<and> in_total (snd (zw__zip_end_file a)) = in_total a
   \<and> stream_write (snd (zw__zip_end_file a)) = stream_write a
   \<and> stream_close (snd (zw__zip_end_file a)) = stream_close a
   \<and> time (snd (zw__zip_end_file a)) = time a \<and> date (snd (zw__zip_end_file a)) = date a
   \<and> num_files (snd (zw__zip_end_file a)) = num_files a
   \<and> (\<exists>ws. calls (snd (zw__zip_end_file a)) = calls a @ ws)
   \<and> (error (stream a) \<noteq> 0 \<longrightarrow> stream (snd (zw__zip_end_file a)) = stream a
        \<and> offset (snd (zw__zip_end_file a)) = offset a
        \<and> calls (snd (zw__zip_end_file a)) = calls a)"
proof -
  define b where "b = zw__end_body a"
  define b2 where "b2 = snd (zw__write_to_stream b (zw__descriptor_of b))"
  have "zw__session_frame a b" unfolding b_def by (rule zw__end_body_frame)
  moreover have "zw__session_frame b b2"
    unfolding b2_def by (intro zw__session_frame_emits zw__emits_write_to_stream)
  ultimately have f: "zw__session_frame a b2" by (rule zw__session_frame_trans)
  have "snd (zw__zip_end_file a) = a \<or> snd (zw__zip_end_file a) = b2
      \<or> (\<exists>cd cf. snd (zw__zip_end_file a) = b2\<lparr>central_dir := cd, current_file := cf\<rparr>)"
    by (subst (1 2 3) zw__zip_end_file_shape) (auto simp: b_def b2_def)
  then show ?thesis
    using f by (auto simp: zw__session_frame_def)
qed

lemma in_cursor_zw__end_body [simp]: "in_cursor (zw__end_body a) = 0"
  unfolding zw__end_body_def
  using zw__emits_trans [OF zw__emits_zlib_huff
      zw__emits_trans [OF zw__emits_pad_bits zw__emits_flush_compressed_bytes],
      of "zw__flush_input a" 256]
  by (simp add: zw__emits_def)

lemma hash_table_zw__write_to_stream [simp]:
  "hash_table (snd (zw__write_to_stream a d)) = hash_table a"
  using zw__emits_write_to_stream [of a d] by (simp add: zw__emits_def)

lemma in_cursor_zw__write_to_stream [simp]:
  "in_cursor (snd (zw__write_to_stream a d)) = in_cursor a"
  using zw__emits_write_to_stream [of a d] by (simp add: zw__emits_def)

lemma in_cursor_zw__zip_end_file:
  "in_cursor (snd (zw__zip_end_file a))
     = (if name_length (current_file a) = 0 then in_cursor a else 0)"
  by (subst zw__zip_end_file_shape) simp

lemma name_length_zw__zip_end_file:
  "fst (zw__zip_end_file a) \<Longrightarrow> name_length (current_file (snd (zw__zip_end_file a))) = 0"
  by (subst zw__zip_end_file_shape, subst (asm) zw__zip_end_file_shape) (simp split: if_splits)

lemma zw_member_session_end:
  "\<exists>a. zw_member_session = Some a \<and> fst (zw__zip_end_file a)
     \<and> name_length (current_file (snd (zw__zip_end_file a))) = 0
     \<and> num_files (snd (zw__zip_end_file a)) = 1
     \<and> in_cursor (snd (zw__zip_end_file a)) = 0 \<and> in_total (snd (zw__zip_end_file a)) = 32768"
proof -
  from zw_member_session_fields obtain a where a: "zw_member_session = Some a"
     "bitcount a = 3" "bitbuf a = 3" "out_cursor a = 0" "out_total a = 32768"
     "in_cursor a = 0" "in_total a = 32768"
     "stream a = \<lparr>user_data = 31, error = 0\<rparr>" "stream_write a = zw_limit_write 1000"
     "name_length (current_file a) = 1" "num_files a = 1"
    by blast
  define a' where "a' = a\<lparr>out := (out a)(0 := 3, 1 := 0), out_cursor := 2, bitbuf := 0, bitcount := 0,
                    current_file := (current_file a)\<lparr>compressed_size :=
                       compressed_size (current_file a) + 2\<rparr>\<rparr>"
  have eb: "zw__end_body a = (snd (zw__write_to_stream a' [3, 0]))\<lparr>out_cursor := 0\<rparr>"
    unfolding a'_def using a by (intro zw__end_body_empty) simp_all
  have "zw__write_to_stream a' [3, 0] = (True, a'\<lparr>stream := (stream a')\<lparr>user_data := 33\<rparr>,
                     offset := offset a' + 2, calls := calls a' @ [SinkWrite [3, 0]]\<rparr>)"
    using a by (subst zw__write_to_stream_limit [where limit = 1000]) (simp_all add: a'_def)
  with eb have eb': "zw__end_body a = a'\<lparr>stream := (stream a')\<lparr>user_data := 33\<rparr>,
                     offset := offset a' + 2, calls := calls a' @ [SinkWrite [3, 0]],
                     out_cursor := 0\<rparr>"
    by simp
  have "fst (zw__write_to_stream (zw__end_body a)
      (zw__data_descriptor_bytes \<lparr>dd_crc = crc (current_file (zw__end_body a)),
         dd_compressed_size = NOT 0, dd_uncompressed_size = NOT 0\<rparr>))"
    using a
    by (subst zw__write_to_stream_limit [where limit = 1000]) (simp_all add: eb' a'_def)
  then have ok: "fst (zw__zip_end_file a)"
    using a by (subst zw__zip_end_file_shape) (simp add: zw__descriptor_of_def)
  note fr = zw__zip_end_file_frame [of a]
  have ic: "in_cursor (snd (zw__zip_end_file a)) = 0"
    using a by (simp add: in_cursor_zw__zip_end_file)
  show ?thesis
    using a ok fr ic name_length_zw__zip_end_file [OF ok] by (intro exI [of _ a]) simp
qed

lemma zw_session_fields:
  "\<exists>a. zw_session limit = Some a \<and> name_length (current_file a) = 0 \<and> bitcount a = 0
     \<and> bitbuf a = 0 \<and> out_total a = 32768 \<and> out_cursor a = 0 \<and> in_cursor a = 0
     \<and> in_total a = 32768 \<and> quality a = 8 \<and> stream_write a = zw_limit_write limit
     \<and> stream_close a = Some (\<lambda>st. st) \<and> stream a = \<lparr>user_data = 0, error = 0\<rparr>
     \<and> num_files a = 0 \<and> calls a = [] \<and> hash_table a = (\<lambda>h. None)
     \<and> central_dir a = None \<and> offset a = 0"
  by (simp add: zw_session_def zw_limit_options_def zw_create_ex_def)

lemma calls_zw__write_to_stream:
  "calls (snd (zw__write_to_stream a d))
     = (if d = [] \<or> error (stream a) \<noteq> 0 then calls a else calls a @ [SinkWrite d])"
  by (simp add: zw__write_to_stream_def Let_def split: prod.splits)

lemma zw__le32_0: "zw__le32 0 = [0, 0, 0, 0]"
  by code_simp

section \<open>Properties: the data descriptor and the empty member\<close>

text \<open>
  Claim C4. For every completed member (\<open>zw__zip_end_file\<close> returns true) the
  last write handed to the sink, after the writes of the compressed body, is
  the 12-byte data descriptor with no signature: the member's CRC-32 in
  little-endian order, then the compressed-size and uncompressed-size fields,
  both \<open>0xFFFFFFFF\<close>.
\<close>

theorem zw__zip_end_file_descriptor:
  assumes "zw__zip_end_file archive = (True, archive')"
  shows "calls archive' = calls (zw__end_body archive)
           @ [SinkWrite (zw__le32 (crc (current_file archive')) @ replicate 8 0xff)]
       \<and> length (zw__le32 (crc (current_file archive')) @ replicate 8 0xff) = 12
       \<and> zw__le32 (crc (current_file archive'))
           = map (\<lambda>k. ucast (drop_bit (8 * k) (crc (current_file archive')))) [0, 1, 2, 3]
       \<and> (\<exists>body. calls (zw__end_body archive) = calls archive @ body)"
proof -
  note t = zw__zip_end_file_True [OF assms]
  have "zw__data_descriptor_bytes
      \<lparr>dd_crc = crc (current_file (zw__end_body archive)), dd_compressed_size = NOT 0,
         dd_uncompressed_size = NOT 0\<rparr>
      = zw__le32 (crc (current_file archive')) @ replicate 8 0xff"
    using t by (simp add: zw__data_descriptor_bytes_def zw__le32_minus_1 numeral_eq_Suc)
  moreover have "\<exists>body. calls (zw__end_body archive) = calls archive @ body"
    using zw__end_body_frame [of archive] by (simp add: zw__session_frame_def)
  moreover have "zw__le32 (crc (current_file archive'))
           = map (\<lambda>k. ucast (drop_bit (8 * k) (crc (current_file archive')))) [0, 1, 2, 3]"
  proof -
    have "[0..<4] = [0, 1, 2, 3 :: nat]" by code_simp
    then show ?thesis by (simp add: zw__le32_def)
  qed
  ultimately show ?thesis
    using t by simp
qed

theorem zw__zip_end_file_descriptor_witness:
  "fst (zw__zip_end_file (the zw_member_session))
   \<and> calls (snd (zw__zip_end_file (the zw_member_session)))
       = calls (zw__end_body (the zw_member_session))
         @ [SinkWrite (zw__le32 (crc (current_file (snd (zw__zip_end_file (the zw_member_session)))))
                       @ replicate 8 0xff)]"
proof -
  from zw_member_session_end obtain a where a: "zw_member_session = Some a"
    "fst (zw__zip_end_file a)"
    by blast
  then have "zw__zip_end_file a = (True, snd (zw__zip_end_file a))"
    by (simp add: prod_eq_iff)
  from zw__zip_end_file_descriptor [OF this] a(2) show ?thesis
    unfolding a(1) option.sel by simp
qed

text \<open>
  Claim C3. A member begun on a session that has no member open and an empty
  bit accumulator, and ended with no byte written, has a compressed body of
  exactly two bytes, \<open>0x03 0x00\<close>: BFINAL = 1, BTYPE = 01, the seven zero bits
  of symbol 256, and zero padding. They are handed to the sink in one write
  (unless the sink has already reported an error). The member's CRC-32 and
  uncompressed size are 0, and on completion the data descriptor and the
  central-directory entry record them.
\<close>

theorem zw__empty_member:
  assumes "name_length (current_file a) = 0" "bitcount a = 0" "bitbuf a = 0" "2 < out_total a"
    and "zw_begin_file (Some a) (Some path) = (True, Some a1)"
  shows "compressed_size (current_file (zw__end_body a1)) = 2
       \<and> crc (current_file (zw__end_body a1)) = 0
       \<and> uncompressed_size (current_file (zw__end_body a1)) = 0
       \<and> calls (zw__end_body a1)
           = calls a1 @ (if error (stream a1) = 0 then [SinkWrite [0x03, 0x00]] else [])
       \<and> (\<forall>a2. zw__zip_end_file a1 = (True, a2) \<longrightarrow>
             calls a2 = calls a1 @ [SinkWrite [0x03, 0x00],
                                    SinkWrite ([0, 0, 0, 0] @ replicate 8 0xff)]
           \<and> crc (current_file a2) = 0 \<and> uncompressed_size (current_file a2) = 0
           \<and> compressed_size (current_file a2) = 2
           \<and> central_dir a2 = Some (zw__sbitems (central_dir a)
                @ zw__zip_central_dir_file_header zw__zip_sig_central_dir_file_header 45
                    zw__zip_file_system_fat 45 zw__zip_flag_has_data_desc
                    zw__zip_compression_method_deflate (time a) (date a)
                    0 (NOT 0) (NOT 0) (of_nat (name_length (current_file a1))) 28 0 0 0 0 (NOT 0)
                @ take (unat (of_nat (name_length (current_file a1)) :: zw_u16))
                    (name (current_file a1))
                @ zw__zip_info64 zw__zip_info64_id 24 0 2 (offset a)))"
proof -
  note o = zw_begin_file_open [OF assms(1-3,5)]
  define a' where "a' = a1\<lparr>out := (out a1)(0 := 3, 1 := 0), out_cursor := 2, bitbuf := 0,
      bitcount := 0,
      current_file := (current_file a1)\<lparr>compressed_size := compressed_size (current_file a1) + 2\<rparr>\<rparr>"
  have eb: "zw__end_body a1 = (snd (zw__write_to_stream a' [3, 0]))\<lparr>out_cursor := 0\<rparr>"
    unfolding a'_def using o assms(4) by (intro zw__end_body_empty) simp_all
  obtain s f c where w: "snd (zw__write_to_stream a' [3, 0]) = a'\<lparr>stream := s, offset := f, calls := c\<rparr>"
    using zw__write_to_stream_shape [of a' "[3, 0]"] by blast
  have c: "calls (zw__end_body a1)
      = calls a1 @ (if error (stream a1) = 0 then [SinkWrite [0x03, 0x00]] else [])"
    by (simp add: eb calls_zw__write_to_stream) (simp add: a'_def)
  have body: "compressed_size (current_file (zw__end_body a1)) = 2
       \<and> crc (current_file (zw__end_body a1)) = 0
       \<and> uncompressed_size (current_file (zw__end_body a1)) = 0
       \<and> name (current_file (zw__end_body a1)) = name (current_file a1)
       \<and> name_length (current_file (zw__end_body a1)) = name_length (current_file a1)
       \<and> start_offset (current_file (zw__end_body a1)) = offset a
       \<and> time (zw__end_body a1) = time a \<and> date (zw__end_body a1) = date a
       \<and> central_dir (zw__end_body a1) = central_dir a"
    using o by (simp add: eb w) (simp add: a'_def)
  have completed: "calls a2 = calls a1 @ [SinkWrite [0x03, 0x00],
                                    SinkWrite ([0, 0, 0, 0] @ replicate 8 0xff)]
           \<and> crc (current_file a2) = 0 \<and> uncompressed_size (current_file a2) = 0
           \<and> compressed_size (current_file a2) = 2
           \<and> central_dir a2 = Some (zw__sbitems (central_dir a)
                @ zw__zip_central_dir_file_header zw__zip_sig_central_dir_file_header 45
                    zw__zip_file_system_fat 45 zw__zip_flag_has_data_desc
                    zw__zip_compression_method_deflate (time a) (date a)
                    0 (NOT 0) (NOT 0) (of_nat (name_length (current_file a1))) 28 0 0 0 0 (NOT 0)
                @ take (unat (of_nat (name_length (current_file a1)) :: zw_u16))
                    (name (current_file a1))
                @ zw__zip_info64 zw__zip_info64_id 24 0 2 (offset a))"
    if "zw__zip_end_file a1 = (True, a2)" for a2
  proof -
    note t = zw__zip_end_file_True [OF that]
    have e0: "error (stream a1) = 0"
    proof (rule ccontr)
      assume "error (stream a1) \<noteq> 0"
      then have "error (stream a') \<noteq> 0" by (simp add: a'_def)
      then have "snd (zw__write_to_stream a' [3, 0]) = a'"
        by (simp add: zw__write_to_stream_def)
      then have "stream (zw__end_body a1) = stream a1" by (simp add: eb a'_def)
      with t \<open>error (stream a1) \<noteq> 0\<close> show False by simp
    qed
    have "zw__data_descriptor_bytes \<lparr>dd_crc = 0, dd_compressed_size = NOT 0,
        dd_uncompressed_size = NOT 0\<rparr> = [0, 0, 0, 0] @ replicate 8 0xff"
      by (simp add: zw__data_descriptor_bytes_def zw__le32_minus_1 zw__le32_0 numeral_eq_Suc)
    with t body c e0 show ?thesis by simp
  qed
  from body c completed show ?thesis by blast
qed

theorem zw__empty_member_witness:
  "zw_begin_file (zw_session 1000) (Some [0x61]) = (True, zw_member_session)
   \<and> compressed_size (current_file (zw__end_body (the zw_member_session))) = 2
   \<and> crc (current_file (zw__end_body (the zw_member_session))) = 0
   \<and> calls (zw__end_body (the zw_member_session))
       = calls (the zw_member_session) @ [SinkWrite [0x03, 0x00]]"
proof -
  from zw_session_fields [of 1000] obtain a where a: "zw_session 1000 = Some a"
    "name_length (current_file a) = 0" "bitcount a = 0" "bitbuf a = 0" "out_total a = 32768"
    by blast
  from zw_member_session_fields obtain a1 where a1: "zw_member_session = Some a1"
    "fst (zw_begin_file (zw_session 1000) (Some [0x61]))" "stream a1 = \<lparr>user_data = 31, error = 0\<rparr>"
    by blast
  have b: "zw_begin_file (Some a) (Some [0x61]) = (True, Some a1)"
    using a(1) a1(1,2) by (simp add: zw_member_session_def prod_eq_iff)
  have "2 < out_total a" using a by simp
  from zw__empty_member [OF a(2-4) this b] a1(3)
  have "compressed_size (current_file (zw__end_body a1)) = 2
      \<and> crc (current_file (zw__end_body a1)) = 0
      \<and> calls (zw__end_body a1) = calls a1 @ [SinkWrite [0x03, 0x00]]"
    by simp
  moreover have "zw_begin_file (zw_session 1000) (Some [0x61]) = (True, Some a1)"
    using b a(1) by simp
  ultimately show ?thesis
    unfolding a1(1) option.sel by simp
qed

lemma zw_short_session_fields:
  "\<exists>a. zw_short_session = Some a
     \<and> bitcount a = 3 \<and> bitbuf a = 3 \<and> out_cursor a = 0 \<and> out_total a = 32768
     \<and> in_cursor a = 0 \<and> in_total a = 32768 \<and> quality a = 8
     \<and> stream a = \<lparr>user_data = 31, error = 0\<rparr> \<and> stream_write a = zw_limit_write 31
     \<and> name_length (current_file a) = 1 \<and> num_files a = 1"
  unfolding zw_short_session_def zw_session_def zw_limit_options_def zw_create_ex_def
  by (simp add: zw_begin_file_def zw__zip_end_file_def zw__write_to_stream_def
      Let_def zw_limit_write_def zw__zlib_add_def zw__flush_bits_small)

lemma zw_begin_file_latched:
  assumes "error (stream (snd (zw__zip_end_file a))) \<noteq> 0" "path \<noteq> []"
  shows "zw_begin_file (Some a) (Some path) = (False, Some (snd (zw__zip_end_file a)))"
  using assms by (simp add: zw_begin_file_def Let_def zw__write_to_stream_def)

lemma zw_latched_session_fields:
  "\<exists>a. zw_latched_session = Some a \<and> error (stream a) = 1 \<and> name_length (current_file a) = 1
     \<and> num_files a = 1 \<and> in_cursor a = 0 \<and> in_total a = 32768"
proof -
  from zw_short_session_fields obtain a where a: "zw_short_session = Some a"
     "bitcount a = 3" "bitbuf a = 3" "out_cursor a = 0" "out_total a = 32768"
     "in_cursor a = 0" "in_total a = 32768"
     "stream a = \<lparr>user_data = 31, error = 0\<rparr>" "stream_write a = zw_limit_write 31"
     "name_length (current_file a) = 1" "num_files a = 1"
    by blast
  define a' where "a' = a\<lparr>out := (out a)(0 := 3, 1 := 0), out_cursor := 2, bitbuf := 0, bitcount := 0,
                    current_file := (current_file a)\<lparr>compressed_size :=
                       compressed_size (current_file a) + 2\<rparr>\<rparr>"
  have eb: "zw__end_body a = (snd (zw__write_to_stream a' [3, 0]))\<lparr>out_cursor := 0\<rparr>"
    unfolding a'_def using a by (intro zw__end_body_empty) simp_all
  have "zw__write_to_stream a' [3, 0] = (False, a'\<lparr>stream := (stream a')\<lparr>user_data := 31, error := 1\<rparr>,
                     offset := offset a' + of_nat (31 - user_data (stream a')),
                     calls := calls a' @ [SinkWrite [3, 0]]\<rparr>)"
    using a by (subst zw__write_to_stream_limit [where limit = 31]) (simp_all add: a'_def)
  with eb have eb': "stream (zw__end_body a) = \<lparr>user_data = 31, error = 1\<rparr>"
    using a by (simp add: a'_def)
  have nf: "\<not> fst (zw__write_to_stream (zw__end_body a) (zw__descriptor_of (zw__end_body a)))"
    using eb' by (simp add: zw__write_to_stream_def zw__descriptor_of_def)
  have sn: "snd (zw__write_to_stream (zw__end_body a) (zw__descriptor_of (zw__end_body a)))
      = zw__end_body a"
    using eb' by (simp add: zw__write_to_stream_def zw__descriptor_of_def)
  have ef: "zw__zip_end_file a = (False, zw__end_body a)"
    using a nf sn by (subst zw__zip_end_file_shape) simp
  have fr: "zw__session_frame a (zw__end_body a)" by (rule zw__end_body_frame)
  have "zw_begin_file (Some a) (Some [0x62]) = (False, Some (zw__end_body a))"
    using zw_begin_file_latched [of a "[0x62]"] ef eb' by simp
  then have l: "zw_latched_session = Some (zw__end_body a)"
    by (simp add: zw_latched_session_def a(1))
  show ?thesis
    using eb' fr a by (intro exI [of _ "zw__end_body a"]) (simp add: l zw__session_frame_def)
qed

lemma zw_idle_session_fields:
  "\<exists>a. zw_idle_session = Some a \<and> name_length (current_file a) = 0
     \<and> num_files a = 1 \<and> in_cursor a = 0 \<and> in_total a = 32768"
proof -
  from zw_member_session_end obtain a where a: "zw_member_session = Some a"
     "fst (zw__zip_end_file a)"
     "name_length (current_file (snd (zw__zip_end_file a))) = 0"
     "num_files (snd (zw__zip_end_file a)) = 1"
     "in_cursor (snd (zw__zip_end_file a)) = 0" "in_total (snd (zw__zip_end_file a)) = 32768"
    by blast
  have i: "zw_idle_session = Some (snd (zw__zip_end_file a))"
    by (simp add: zw_idle_session_def a(1) zw_begin_file_def Let_def)
  show ?thesis
    using a by (intro exI [of _ "snd (zw__zip_end_file a)"]) (simp add: i)
qed

lemma zw_write_returns:
  assumes "zw__ready a"
  shows "\<exists>a'. zw_write (Some a) data = Some (num_files a \<noteq> 0, Some a') \<and> zw__ready a'
           \<and> zw__session_frame a a'"
proof (cases "num_files a = 0")
  case True
  with assms show ?thesis by (simp add: zw_write_def zw__session_frame_def)
next
  case False
  from zw__write_loop_invariant [where P = "\<lambda>x. True", OF assms]
  obtain a' where "zw__write_loop a data = Some a'" "zw__ready a'" "zw__session_frame a a'"
    by blast
  with False show ?thesis by (simp add: zw_write_def)
qed

section \<open>Properties: \<open>zw_write\<close>\<close>

text \<open>
  Claim C1, refuted as stated. On a sink with room for 31 bytes, a member is
  begun (30 bytes of header, 1 of name) and a second \<open>zw_begin_file\<close> fails:
  the sink error is latched. \<open>zw_write\<close> still returns true. And on the
  session whose only member was ended by a \<open>zw_begin_file\<close> with an empty
  path, no member is active, and \<open>zw_write\<close> returns true.
\<close>

theorem zw_write_counterexample:
  "zw_latched_session \<noteq> None
   \<and> error (stream (the zw_latched_session)) = 1
   \<and> map_option fst (zw_write zw_latched_session [0x41]) = Some True
   \<and> zw_idle_session \<noteq> None
   \<and> name_length (current_file (the zw_idle_session)) = 0
   \<and> map_option fst (zw_write zw_idle_session [0x41]) = Some True"
proof -
  from zw_latched_session_fields obtain a where a: "zw_latched_session = Some a"
    "error (stream a) = 1" "num_files a = 1" "in_cursor a = 0" "in_total a = 32768"
    by blast
  from zw_idle_session_fields obtain b where b: "zw_idle_session = Some b"
    "name_length (current_file b) = 0" "num_files b = 1" "in_cursor b = 0" "in_total b = 32768"
    by blast
  have "zw__ready a" "zw__ready b" using a b by (simp_all add: zw__ready_def)
  from zw_write_returns [OF this(1), of "[0x41]"] zw_write_returns [OF this(2), of "[0x41]"]
  have "map_option fst (zw_write (Some a) [0x41]) = Some True"
    "map_option fst (zw_write (Some b) [0x41]) = Some True"
    using a b by auto
  with a(2) b(2) show ?thesis
    unfolding a(1) b(1) option.sel by simp
qed

text \<open>
  Claim C1, amended. \<open>zw_write\<close> returns failure exactly when the session is
  null or no member has been begun on it yet (\<open>num_files\<close> is 0). It does not
  look at the sink error: with an error latched it returns what it returns
  without one, and no call reaches the sink (stream, offset and call trace are
  unchanged).
\<close>

theorem zw_write_result:
  "zw_write None data = Some (False, None)
   \<and> (zw__ready a \<longrightarrow>
        (\<exists>a'. zw_write (Some a) data = Some (num_files a \<noteq> 0, Some a') \<and> zw__ready a'
           \<and> (error (stream a) \<noteq> 0 \<longrightarrow>
                 stream a' = stream a \<and> offset a' = offset a \<and> calls a' = calls a)))"
proof -
  have "zw_write None data = Some (False, None)" by (simp add: zw_write_def)
  moreover have "\<exists>a'. zw_write (Some a) data = Some (num_files a \<noteq> 0, Some a') \<and> zw__ready a'
           \<and> (error (stream a) \<noteq> 0 \<longrightarrow>
                 stream a' = stream a \<and> offset a' = offset a \<and> calls a' = calls a)"
    if "zw__ready a"
    using zw_write_returns [OF that, of data] by (auto simp: zw__session_frame_def)
  ultimately show ?thesis by blast
qed

theorem zw_write_result_witness:
  "zw__ready (the zw_latched_session)
   \<and> map_option fst (zw_write zw_latched_session [0x41, 0x42]) = Some True
   \<and> map_option (\<lambda>r. calls (the (snd r))) (zw_write zw_latched_session [0x41, 0x42])
       = Some (calls (the zw_latched_session))"
proof -
  from zw_latched_session_fields obtain a where a: "zw_latched_session = Some a"
    "error (stream a) = 1" "num_files a = 1" "in_cursor a = 0" "in_total a = 32768"
    by blast
  have r: "zw__ready a" using a by (simp add: zw__ready_def)
  from zw_write_result [of "[0x41, 0x42]" a] r a(2,3) obtain a' where
    "zw_write (Some a) [0x41, 0x42] = Some (True, Some a')" "calls a' = calls a"
    by auto
  with r show ?thesis unfolding a(1) option.sel by simp
qed

section \<open>Properties: \<open>zw_finish\<close>\<close>

text \<open>
  Claim C2, on the code. A session with no member on a sink that takes 76
  bytes: \<open>zw_finish\<close> writes the ZIP64 end record (56 bytes) and its locator
  (20 bytes), the sink refuses the classic end record, and \<open>zw_finish\<close>
  returns false at once: the sink's \<open>close\<close> is not called and the archive is
  not freed. On a sink that takes 75 bytes the locator is refused instead,
  and \<open>zw_finish\<close> closes the sink and frees the archive.
\<close>

theorem zw_finish_early_return:
  "fst (zw_finish (zw_session 76)) = False
   \<and> snd (zw_finish (zw_session 76)) \<noteq> None
   \<and> error (stream (the (snd (zw_finish (zw_session 76))))) = 1
   \<and> filter (\<lambda>c. c = SinkClose \<or> c = ArchiveFree) (calls (the (snd (zw_finish (zw_session 76))))) = []
   \<and> fst (zw_finish (zw_session 75)) = False
   \<and> filter (\<lambda>c. c = SinkClose \<or> c = ArchiveFree) (calls (the (snd (zw_finish (zw_session 75)))))
       = [SinkClose, ArchiveFree]"
  unfolding zw_session_def zw_limit_options_def zw_create_ex_def
  by (simp add: zw_finish_def zw__zip_end_file_def zw__write_if_def zw__write_to_stream_def
      Let_def zw_limit_write_def zw__sbcount_def zw__sbitems_def)

section \<open>Properties: match search\<close>

lemma zw__lazy_scan_iff:
  "zw__lazy_scan w i data_len best es (Some loc)
     = (if \<exists>e \<in> set es. e > i + 1
             \<and> zw__zlib_countm (zw__ptr_add w e) (zw__ptr_add w (32768 + i + 1)) (data_len - i - 1)
                 > best
        then None else Some loc)"
  by (induction es) (simp_all add: Let_def)

lemma window_zw__hash_insert [simp]: "window (zw__hash_insert a h i) = window a"
  by (simp add: zw__hash_insert_def Let_def)

text \<open>
  Claim C8. When the first scan at position \<open>i\<close> has found a match of length
  \<open>best\<close>, the encoder scans the slot of the three bytes at \<open>i + 1\<close> (as it
  stands after position \<open>i\<close> was entered into the table) and drops the match,
  emitting \<open>data[i]\<close> as a literal and advancing by 1, exactly when some entry
  of that slot lying in the window has a common prefix with \<open>data + i + 1\<close>
  strictly longer than \<open>best\<close>; otherwise (entries of length \<open>best\<close>
  included) it emits the match and advances by \<open>best\<close>.
\<close>

theorem zw__flush_iter_lazy_match:
  assumes "zw__scan_best (window a) i data_len
             (zw__sbitems (hash_table a (zw__slot (window a) i))) (3, None) = (best, Some loc)"
  shows "(snd (zw__flush_iter a data_len i) = i + 1
          \<longleftrightarrow> (\<exists>e \<in> set (zw__sbitems (hash_table (zw__hash_insert a (zw__slot (window a) i) i)
                                  (zw__slot (window a) (i + 1)))).
                 e > i + 1
               \<and> zw__zlib_countm (zw__ptr_add (window a) e) (zw__ptr_add (window a) (32768 + i + 1))
                     (data_len - i - 1) > best))
       \<and> zw__flush_iter a data_len i
           = (if \<exists>e \<in> set (zw__sbitems (hash_table (zw__hash_insert a (zw__slot (window a) i) i)
                                  (zw__slot (window a) (i + 1)))).
                 e > i + 1
               \<and> zw__zlib_countm (zw__ptr_add (window a) e) (zw__ptr_add (window a) (32768 + i + 1))
                     (data_len - i - 1) > best
              then (zw__zlib_huffb (unat (window a (32768 + i)))
                      (zw__hash_insert a (zw__slot (window a) i) i), i + 1)
              else (zw__emit_match best (nat ((32768 + int i - int loc) mod 65536))
                      (zw__hash_insert a (zw__slot (window a) i) i), i + best))"
proof -
  have "3 \<le> best"
    using zw__scan_best_ge [of "(3, None)" "window a" i data_len
        "zw__sbitems (hash_table a (zw__slot (window a) i))"] assms
    by simp
  then have ne: "i + best \<noteq> i + 1" by simp
  have eq: "zw__flush_iter a data_len i
           = (if \<exists>e \<in> set (zw__sbitems (hash_table (zw__hash_insert a (zw__slot (window a) i) i)
                                  (zw__slot (window a) (i + 1)))).
                 e > i + 1
               \<and> zw__zlib_countm (zw__ptr_add (window a) e) (zw__ptr_add (window a) (32768 + i + 1))
                     (data_len - i - 1) > best
              then (zw__zlib_huffb (unat (window a (32768 + i)))
                      (zw__hash_insert a (zw__slot (window a) i) i), i + 1)
              else (zw__emit_match best (nat ((32768 + int i - int loc) mod 65536))
                      (zw__hash_insert a (zw__slot (window a) i) i), i + best))"
    unfolding zw__flush_iter_def Let_def assms prod.case option.case window_zw__hash_insert
      zw__lazy_scan_iff
    by (simp, blast)
  show ?thesis
    using ne by (simp add: eq)
qed

lemma zw__zlib_countm_le: "zw__zlib_countm a b limit \<le> limit"
proof -
  have "zw__countm_loop a b (if limit > 258 then 258 else limit) 0
      \<le> (if limit > 258 then 258 else limit)"
    using zw__countm_loop_char [of 0 "if limit > 258 then 258 else limit" a b] by simp
  then show ?thesis by (simp add: zw__zlib_countm_def split: if_splits)
qed

lemma zw__zlib_countm_all_equal:
  assumes "\<And>k. a k = b k"
  shows "zw__zlib_countm a b limit = min limit 258"
proof -
  have "zw__countm_loop a b (if limit > 258 then 258 else limit) 0
      = (if limit > 258 then 258 else limit)"
    by (rule zw__countm_loop_unique) (simp_all add: assms)
  then show ?thesis by (simp add: zw__zlib_countm_def min_def)
qed

theorem zw__flush_iter_lazy_match_witness:
  "zw__scan_best (window zw_run_session) 1 10
     (zw__sbitems (hash_table zw_run_session (zw__slot (window zw_run_session) 1))) (3, None)
     = (9, Some 32768)
   \<and> snd (zw__flush_iter zw_run_session 10 1) = 10"
proof -
  have w: "window zw_run_session = (\<lambda>k. 0x61)"
    by (simp add: zw_run_session_def)
  have slot: "zw__slot (\<lambda>k. 0x61) i = zw__slot (\<lambda>k. 0x61) 0" for i
    by (simp add: zw__slot_def zw__ptr_add_def)
  have ht: "hash_table zw_run_session (zw__slot (\<lambda>k. 0x61) 0) = Some [32768]"
    by (simp add: zw_run_session_def)
  have p: "zw__ptr_add (\<lambda>k. 0x61 :: zw_u8) n = (\<lambda>k. 0x61)" for n
    by (simp add: zw__ptr_add_def)
  have sb: "zw__scan_best (window zw_run_session) 1 10
     (zw__sbitems (hash_table zw_run_session (zw__slot (window zw_run_session) 1))) (3, None)
     = (9, Some 32768)"
    unfolding w slot [of 1] ht
    by (simp add: zw__sbitems_def p zw__zlib_countm_all_equal)
  have ins: "hash_table (zw__hash_insert zw_run_session (zw__slot (\<lambda>k. 0x61) 0) 1)
      (zw__slot (\<lambda>k. 0x61) 0) = Some [32768, 32769]"
    by (simp add: zw__hash_insert_def Let_def ht zw__sbpush_def zw__sbitems_def)
  have small: "\<not> 9 < zw__zlib_countm x y 8" for x y
    using zw__zlib_countm_le [of x y 8] by simp
  from zw__flush_iter_lazy_match [OF sb] have "snd (zw__flush_iter zw_run_session 10 1) = 10"
    unfolding w slot [of 1] slot [of "1 + 1"] ins
    by (simp add: zw__sbitems_def small)
  with sb show ?thesis by simp
qed

section \<open>Properties: the hash table\<close>

text \<open>Every slot of the hash table holds at most \<open>2 * quality\<close> offsets.\<close>

definition zw__hash_bounded :: "'u zw__zip_details \<Rightarrow> bool" where
  "zw__hash_bounded a \<longleftrightarrow>
     (\<forall>h < zw__hash_size. zw__sbcount (hash_table a h) \<le> 2 * quality a)"

lemma zw__hash_bounded_cong:
  "hash_table b = hash_table a \<Longrightarrow> quality b = quality a
     \<Longrightarrow> zw__hash_bounded b = zw__hash_bounded a"
  by (simp add: zw__hash_bounded_def)

lemma zw__hash_bounded_emits: "zw__emits a b \<Longrightarrow> zw__hash_bounded b = zw__hash_bounded a"
  by (rule zw__hash_bounded_cong) (simp_all add: zw__emits_def)

lemma hash_table_zw__hash_insert:
  "hash_table (zw__hash_insert a h i) h
     = Some ((if zw__sbcount (hash_table a h) = 2 * quality a \<and> hash_table a h \<noteq> None
              then take (quality a) (drop (quality a) (zw__sbitems (hash_table a h)))
              else zw__sbitems (hash_table a h)) @ [(i + 32768) mod 65536])"
  by (simp add: zw__hash_insert_def Let_def zw__sbpush_def zw__sbitems_def zw__sbcount_def
      split: option.splits)

lemma hash_table_zw__hash_insert_other:
  "h' \<noteq> h \<Longrightarrow> hash_table (zw__hash_insert a h i) h' = hash_table a h'"
  by (simp add: zw__hash_insert_def Let_def)

lemma quality_zw__hash_insert [simp]: "quality (zw__hash_insert a h i) = quality a"
  by (simp add: zw__hash_insert_def Let_def)

lemma zw__hash_bounded_insert:
  assumes "zw__hash_bounded a" "0 < quality a" "h < zw__hash_size"
  shows "zw__hash_bounded (zw__hash_insert a h i)"
  unfolding zw__hash_bounded_def
proof (intro allI impI)
  fix h' assume h': "h' < zw__hash_size"
  show "zw__sbcount (hash_table (zw__hash_insert a h i) h') \<le> 2 * quality (zw__hash_insert a h i)"
  proof (cases "h' = h")
    case False
    with assms(1) h' show ?thesis
      by (simp add: hash_table_zw__hash_insert_other zw__hash_bounded_def)
  next
    case True
    have "zw__sbcount (hash_table a h) \<le> 2 * quality a"
      using assms(1,3) by (simp add: zw__hash_bounded_def)
    then show ?thesis
      using assms(2) unfolding True hash_table_zw__hash_insert
      by (auto simp: zw__sbcount_def zw__sbitems_def split: option.splits)
  qed
qed

lemma zw__slot_less: "zw__slot w i < zw__hash_size"
proof -
  have "zw__zhash (zw__ptr_add w (32768 + i)) AND 16383 \<le> 16383"
    by (rule word_and_le1)
  then have "unat (zw__zhash (zw__ptr_add w (32768 + i)) AND 16383) \<le> unat (16383 :: zw_u32)"
    by (simp add: word_le_nat_alt)
  then show ?thesis
    by (simp add: zw__slot_def zw__hash_size_def)
qed

lemma zw__flush_iter_hash_table:
  "zw__emits (zw__hash_insert a (zw__slot (window a) i) i) (fst (zw__flush_iter a data_len i))"
proof -
  define a1 where "a1 = zw__hash_insert a (zw__slot (window a) i) i"
  have "fst (zw__flush_iter a data_len i) = zw__zlib_huffb (unat (window a1 (32768 + i))) a1
      \<or> (\<exists>best d. fst (zw__flush_iter a data_len i) = zw__emit_match best d a1)"
    by (auto simp: zw__flush_iter_def Let_def a1_def split: prod.splits option.splits)
  then show ?thesis
    unfolding a1_def [symmetric]
    using zw__emits_zlib_huffb zw__emits_emit_match by metis
qed

lemma zw__hash_bounded_flush_iter:
  assumes "zw__hash_bounded a" "0 < quality a"
  shows "zw__hash_bounded (fst (zw__flush_iter a data_len i))
       \<and> quality (fst (zw__flush_iter a data_len i)) = quality a"
proof -
  have "zw__hash_bounded (zw__hash_insert a (zw__slot (window a) i) i)"
    using assms zw__slot_less by (rule zw__hash_bounded_insert)
  then show ?thesis
    using zw__flush_iter_hash_table [of a i data_len]
    by (simp add: zw__hash_bounded_emits) (simp add: zw__emits_def)
qed

lemma zw__hash_bounded_flush_loop:
  assumes "zw__hash_bounded a" "0 < quality a"
  shows "zw__hash_bounded (fst (zw__flush_loop a data_len i))
       \<and> quality (fst (zw__flush_loop a data_len i)) = quality a"
  using assms
proof (induction a data_len i rule: zw__flush_loop.induct)
  case (1 archive data_len i)
  show ?case
  proof (cases "i + 3 < data_len")
    case True
    note it = zw__hash_bounded_flush_iter [OF "1.prems", of data_len i]
    from "1.IH" [OF True] it "1.prems"(2)
    have "zw__hash_bounded (fst (zw__flush_loop (fst (zw__flush_iter archive data_len i)) data_len
              (snd (zw__flush_iter archive data_len i))))
       \<and> quality (fst (zw__flush_loop (fst (zw__flush_iter archive data_len i)) data_len
              (snd (zw__flush_iter archive data_len i)))) = quality archive"
      by simp
    with True show ?thesis by (subst (1 2) zw__flush_loop.simps) simp
  next
    case False
    with "1.prems" show ?thesis by (subst (1 2) zw__flush_loop.simps) simp
  qed
qed

lemma zw__sbcount_slide_slot: "zw__sbcount (zw__slide_slot c hl) \<le> zw__sbcount hl"
  by (simp add: zw__slide_slot_def zw__sbcount_def split: option.splits)

lemma zw__hash_bounded_flush_input:
  assumes "zw__hash_bounded a" "0 < quality a"
  shows "zw__hash_bounded (zw__flush_input a) \<and> quality (zw__flush_input a) = quality a"
proof (cases "in_cursor a = 0")
  case True
  with assms show ?thesis by (simp add: zw__flush_input_def)
next
  case False
  define a1 where "a1 = fst (zw__flush_loop a (in_cursor a) 0)"
  define i where "i = snd (zw__flush_loop a (in_cursor a) 0)"
  define a2 where "a2 = zw__flush_tail a1 (in_cursor a) i"
  have b1: "zw__hash_bounded a1 \<and> quality a1 = quality a"
    unfolding a1_def using assms by (rule zw__hash_bounded_flush_loop)
  have e: "zw__emits a1 a2" unfolding a2_def by (rule zw__emits_flush_tail)
  have b2: "zw__hash_bounded a2 \<and> quality a2 = quality a"
    using b1 e by (simp add: zw__hash_bounded_emits) (simp add: zw__emits_def)
  define a3 where "a3 = a2\<lparr>hash_table :=
                  (\<lambda>h. if h < zw__hash_size
                        then zw__slide_slot (in_cursor a2) (hash_table a2 h)
                        else hash_table a2 h)\<rparr>"
  define a4 where "a4 = a3\<lparr>window :=
                  (\<lambda>k. if k < 32768 then window a3 (in_cursor a3 + k)
                        else window a3 k)\<rparr>"
  have "zw__flush_input a = a4\<lparr>current_file :=
                  (current_file a4)\<lparr>uncompressed_size :=
                       uncompressed_size (current_file a4) + of_nat (in_cursor a),
                     crc := zw__crc32 (map (\<lambda>k. window a4 (32768 + k)) [0..<in_cursor a])
                              (crc (current_file a4))\<rparr>, in_cursor := 0\<rparr>"
    using False
    unfolding zw__flush_input_def Let_def case_prod_beta a1_def i_def a2_def a3_def a4_def
    by simp
  then have fi: "hash_table (zw__flush_input a) = hash_table a3
      \<and> quality (zw__flush_input a) = quality a2"
    by (simp add: a4_def a3_def)
  have "zw__sbcount (zw__slide_slot (in_cursor a2) (hash_table a2 h)) \<le> 2 * quality a2"
    if "h < zw__hash_size" for h
    using b2 that zw__sbcount_slide_slot [of "in_cursor a2" "hash_table a2 h"]
    by (auto simp: zw__hash_bounded_def intro: order_trans)
  then show ?thesis
    using b2 by (simp add: fi zw__hash_bounded_def a3_def)
qed

lemma zw__hash_bounded_end_body:
  assumes "zw__hash_bounded a" "0 < quality a"
  shows "zw__hash_bounded (zw__end_body a) \<and> quality (zw__end_body a) = quality a"
proof -
  have "zw__emits (zw__flush_input a) (zw__end_body a)"
    unfolding zw__end_body_def
    by (blast intro: zw__emits_trans zw__emits_zlib_huff zw__emits_pad_bits
        zw__emits_flush_compressed_bytes)
  then show ?thesis
    using zw__hash_bounded_flush_input [OF assms]
    by (simp add: zw__hash_bounded_emits) (simp add: zw__emits_def)
qed

lemma hash_table_zw__zip_end_file:
  "hash_table (snd (zw__zip_end_file a))
     = (if name_length (current_file a) = 0 then hash_table a else hash_table (zw__end_body a))"
  by (subst zw__zip_end_file_shape) simp

lemma zw__hash_bounded_end_file:
  assumes "zw__hash_bounded a" "0 < quality a"
  shows "zw__hash_bounded (snd (zw__zip_end_file a)) \<and> quality (snd (zw__zip_end_file a)) = quality a"
proof -
  have q: "quality (snd (zw__zip_end_file a)) = quality a"
    using zw__zip_end_file_frame [of a] by simp
  show ?thesis
  proof (cases "name_length (current_file a) = 0")
    case True
    with assms show ?thesis by (simp add: zw__zip_end_file_def)
  next
    case False
    have "zw__hash_bounded (snd (zw__zip_end_file a)) = zw__hash_bounded (zw__end_body a)"
      using False zw__hash_bounded_end_body [OF assms] q
      by (intro zw__hash_bounded_cong) (simp_all add: hash_table_zw__zip_end_file)
    with zw__hash_bounded_end_body [OF assms] q show ?thesis by simp
  qed
qed

text \<open>What \<open>zw_begin_file\<close> may have done to the encoder state, whatever it returns.\<close>

lemma zw_begin_file_result:
  assumes "zw_begin_file (Some a) p = (ok, r)"
  defines "a1 \<equiv> snd (zw__zip_end_file a)"
  shows "\<exists>a'. r = Some a' \<and> quality a' = quality a1 \<and> in_total a' = in_total a1
       \<and> (in_cursor a' = in_cursor a1 \<or> in_cursor a' = 0)
       \<and> (\<forall>h. zw__sbcount (hash_table a' h) \<le> zw__sbcount (hash_table a1 h))"
proof (cases "\<exists>path. p = Some path \<and> path \<noteq> []")
  case False
  then have "zw_begin_file (Some a) p = (False, Some a1)"
    by (cases p) (auto simp: zw_begin_file_def Let_def a1_def)
  with assms(1) show ?thesis by auto
next
  case True
  then obtain path where p: "p = Some path" and ne: "path \<noteq> []" by blast
  define name_len where "name_len = (if length path > 0xfffe then 0xfffe else length path)"
  define hdr where "hdr = zw__zip_local_file_header zw__zip_sig_local_file_header 45
                             zw__zip_flag_has_data_desc zw__zip_compression_method_deflate
                             (time a1) (date a1) 0 0 0 (of_nat name_len) 0"
  define a2 where "a2 = snd (zw__write_to_stream a1 hdr)"
  define a3 where "a3 = snd (zw__write_to_stream a2 (take name_len path))"
  obtain s2 o2 c2 where a2: "a2 = a1\<lparr>stream := s2, offset := o2, calls := c2\<rparr>"
    using zw__write_to_stream_shape [of a1 hdr] unfolding a2_def by blast
  obtain s3 o3 c3 where a3: "a3 = a2\<lparr>stream := s3, offset := o3, calls := c3\<rparr>"
    using zw__write_to_stream_shape [of a2 "take name_len path"] unfolding a3_def by blast
  define a6 where "a6 = (let a4 = a3\<lparr>current_file := (current_file a3)\<lparr>name := take name_len path\<rparr>\<rparr>;
                                     a5 = (if num_files a4 \<noteq> 0
                                           then a4\<lparr>hash_table :=
                                             (\<lambda>i. if i < zw__hash_size
                                                   then (case hash_table a4 i of
                                                           None \<Rightarrow> None
                                                         | Some xs \<Rightarrow> Some [])
                                                   else hash_table a4 i)\<rparr>
                                           else a4)
                                 in a5\<lparr>in_cursor := 0, out_cursor := 0,
                                             current_file :=
                                               (current_file a5)\<lparr>name_length := name_len mod 65536,
                                                  compressed_size := 0,
                                                  uncompressed_size := 0,
                                                  crc := 0,
                                                  start_offset := offset a1\<rparr>,
                                             num_files := num_files a5 + 1\<rparr>)"
  define a8 where "a8 = zw__zlib_add 1 2 (zw__zlib_add 1 1 a6)"
  define ok1 where "ok1 = fst (zw__write_to_stream a1 hdr)"
  define ok2 where "ok2 = fst (zw__write_to_stream a2 (take name_len path))"
  have w1: "zw__write_to_stream a1 hdr = (ok1, a2)"
    by (simp add: ok1_def a2_def)
  have w2: "zw__write_to_stream a2 (take name_len path) = (ok2, a3)"
    by (simp add: ok2_def a3_def)
  have "zw_begin_file (Some a) (Some path)
      = (if \<not> ok1 then (False, Some a2)
         else if \<not> ok2 then (False, Some a3)
         else (True, Some a8))"
    unfolding zw_begin_file_def option.case a1_def [symmetric] Let_def name_len_def [symmetric]
      hdr_def [symmetric] w1 w2 prod.case a6_def a8_def
    using ne by simp
  with assms(1) p have r: "r = Some a2 \<or> r = Some a3 \<or> r = Some a8"
    by (auto split: if_splits)
  have "zw__emits a6 a8"
    unfolding a8_def by (blast intro: zw__emits_trans zw__emits_zlib_add)
  then have e: "quality a8 = quality a6" "in_total a8 = in_total a6" "in_cursor a8 = in_cursor a6"
    "hash_table a8 = hash_table a6"
    by (simp_all add: zw__emits_def)
  have f6: "quality a6 = quality a1" "in_total a6 = in_total a1" "in_cursor a6 = 0"
    "zw__sbcount (hash_table a6 h) \<le> zw__sbcount (hash_table a1 h)" for h
    by (simp_all add: a6_def a3 a2 Let_def zw__sbcount_def split: option.splits)
  from r show ?thesis
  proof (elim disjE)
    assume "r = Some a2" then show ?thesis by (simp add: a2)
  next
    assume "r = Some a3" then show ?thesis by (simp add: a3 a2)
  next
    assume "r = Some a8" then show ?thesis using e f6 by simp
  qed
qed

lemma zw__hash_bounded_begin_file:
  assumes "zw__hash_bounded a" "0 < quality a" "snd (zw_begin_file (Some a) p) = Some a'"
  shows "zw__hash_bounded a' \<and> quality a' = quality a"
proof -
  have "zw_begin_file (Some a) p = (fst (zw_begin_file (Some a) p), Some a')"
    using assms(3) by (simp add: prod_eq_iff)
  from zw_begin_file_result [OF this]
  have r: "quality a' = quality (snd (zw__zip_end_file a))"
    "\<forall>h. zw__sbcount (hash_table a' h) \<le> zw__sbcount (hash_table (snd (zw__zip_end_file a)) h)"
    by simp_all
  note ef = zw__hash_bounded_end_file [OF assms(1,2)]
  have "zw__sbcount (hash_table a' h) \<le> 2 * quality a'" if "h < zw__hash_size" for h
  proof -
    have "zw__sbcount (hash_table a' h) \<le> zw__sbcount (hash_table (snd (zw__zip_end_file a)) h)"
      using r(2) by simp
    also have "\<dots> \<le> 2 * quality (snd (zw__zip_end_file a))"
      using ef that by (auto simp: zw__hash_bounded_def)
    finally show ?thesis using r(1) by simp
  qed
  then show ?thesis
    using r(1) ef by (simp add: zw__hash_bounded_def)
qed

lemma zw__ready_begin_file:
  assumes "zw__ready a" "snd (zw_begin_file (Some a) p) = Some a'"
  shows "zw__ready a'"
proof -
  have "zw_begin_file (Some a) p = (fst (zw_begin_file (Some a) p), Some a')"
    using assms(2) by (simp add: prod_eq_iff)
  from zw_begin_file_result [OF this]
  have r: "in_total a' = in_total (snd (zw__zip_end_file a))"
    "in_cursor a' = in_cursor (snd (zw__zip_end_file a)) \<or> in_cursor a' = 0"
    by simp_all
  have "in_total (snd (zw__zip_end_file a)) = in_total a"
    using zw__zip_end_file_frame [of a] by simp
  moreover have "in_cursor (snd (zw__zip_end_file a)) = in_cursor a
      \<or> in_cursor (snd (zw__zip_end_file a)) = 0"
    by (simp add: in_cursor_zw__zip_end_file)
  ultimately show ?thesis
    using assms(1) r by (auto simp: zw__ready_def)
qed

lemma zw__hash_bounded_write:
  assumes "zw__ready a" "zw__hash_bounded a" "0 < quality a"
  shows "\<exists>a'. zw_write (Some a) data = Some (num_files a \<noteq> 0, Some a') \<and> zw__hash_bounded a'
           \<and> quality a' = quality a"
proof (cases "num_files a = 0")
  case True
  with assms show ?thesis by (simp add: zw_write_def)
next
  case False
  have "\<exists>a'. zw__write_loop a data = Some a' \<and> zw__ready a' \<and> zw__session_frame a a'
      \<and> (zw__hash_bounded a' \<and> quality a' = quality a)"
  proof (rule zw__write_loop_invariant [where P = "\<lambda>x. zw__hash_bounded x \<and> quality x = quality a"])
    show "zw__ready a" by fact
    show "zw__hash_bounded a \<and> quality a = quality a" using assms(2) by simp
    show "zw__hash_bounded (x\<lparr>window := w, in_cursor := c\<rparr>)
        \<and> quality (x\<lparr>window := w, in_cursor := c\<rparr>) = quality a"
      if "zw__hash_bounded x \<and> quality x = quality a" for x :: "'a zw__zip_details" and w c
      using that by (auto simp: zw__hash_bounded_def)
    show "zw__hash_bounded (zw__flush_input x) \<and> quality (zw__flush_input x) = quality a"
      if "zw__hash_bounded x \<and> quality x = quality a" for x :: "'a zw__zip_details"
      using that zw__hash_bounded_flush_input [of x] assms(3) by simp
  qed
  with False show ?thesis by (auto simp: zw_write_def)
qed

lemma hash_table_zw__write_if [simp]:
  "hash_table (snd (zw__write_if r a d)) = hash_table a"
  by (simp add: zw__write_if_def)

lemma zw__hash_bounded_finish:
  assumes "snd (zw_finish (Some a)) = Some a'"
  shows "zw__hash_bounded a'"
proof -
  have "hash_table a' h = None" if "h < zw__hash_size" for h
    using assms that
    by (auto simp: zw_finish_def Let_def case_prod_beta split: if_splits option.splits)
  then show ?thesis by (simp add: zw__hash_bounded_def zw__sbcount_def)
qed

lemma zw__hash_bounded_create_ex:
  assumes "zw_create_ex options local = Some a"
  shows "quality a = 8 \<and> zw__hash_bounded a"
  using assms
  by (auto simp: zw_create_ex_def zw__hash_bounded_def zw__sbcount_def split: option.splits)

text \<open>
  Claim C9. In a session (\<open>quality\<close> is 8, as \<open>zw_create_ex\<close> sets it) every
  hash slot holds at most 16 offsets at all times. Entering position \<open>i\<close>
  into a slot that holds exactly 16 offsets first drops the older 8 (the
  newer 8 move down and the count becomes 8) and then appends
  \<open>(zw_u16)(i + 32768)\<close>; a slot that holds fewer is only appended to. The
  bound holds in the session \<open>zw_create_ex\<close> returns and is kept by the hash
  insertion, by every round of the match search, by \<open>zw__flush_input\<close>, by
  the member end, and by \<open>zw_begin_file\<close>, \<open>zw_write\<close> and \<open>zw_finish\<close>.
\<close>

theorem zw__hash_table_bounded:
  assumes "quality a = 8" "zw__hash_bounded a"
  shows "(zw__sbcount (hash_table a h) = 16
            \<longrightarrow> hash_table (zw__hash_insert a h i) h
                = Some (drop 8 (zw__sbitems (hash_table a h)) @ [(i + 32768) mod 65536]))
       \<and> (zw__sbcount (hash_table a h) \<noteq> 16
            \<longrightarrow> hash_table (zw__hash_insert a h i) h
                = Some (zw__sbitems (hash_table a h) @ [(i + 32768) mod 65536]))
       \<and> (h < zw__hash_size \<longrightarrow> zw__hash_bounded (zw__hash_insert a h i))
       \<and> zw__hash_bounded (fst (zw__flush_iter a data_len i))
       \<and> zw__hash_bounded (zw__flush_input a)
       \<and> zw__hash_bounded (snd (zw__zip_end_file a))
       \<and> (\<forall>a'. snd (zw_begin_file (Some a) path) = Some a'
              \<longrightarrow> zw__hash_bounded a' \<and> quality a' = 8)
       \<and> (zw__ready a
            \<longrightarrow> (\<exists>a'. zw_write (Some a) data = Some (num_files a \<noteq> 0, Some a')
                      \<and> zw__hash_bounded a' \<and> quality a' = 8))
       \<and> (\<forall>a'. snd (zw_finish (Some a)) = Some a' \<longrightarrow> zw__hash_bounded a')
       \<and> (\<forall>options local a0. zw_create_ex options local = Some (a0 :: 'a zw__zip_details)
              \<longrightarrow> quality a0 = 8 \<and> zw__hash_bounded a0)"
proof -
  have q: "0 < quality a" using assms(1) by simp
  have full: "hash_table (zw__hash_insert a h i) h
                = Some (drop 8 (zw__sbitems (hash_table a h)) @ [(i + 32768) mod 65536])"
    if "zw__sbcount (hash_table a h) = 16"
  proof -
    from that have "hash_table a h \<noteq> None"
      by (auto simp: zw__sbcount_def split: option.splits)
    moreover from that have "length (zw__sbitems (hash_table a h)) = 16"
      by (auto simp: zw__sbcount_def zw__sbitems_def split: option.splits)
    ultimately show ?thesis
      using that assms(1) by (simp add: hash_table_zw__hash_insert)
  qed
  have other: "hash_table (zw__hash_insert a h i) h
                = Some (zw__sbitems (hash_table a h) @ [(i + 32768) mod 65536])"
    if "zw__sbcount (hash_table a h) \<noteq> 16"
    using that assms(1) by (simp add: hash_table_zw__hash_insert)
  have ins: "zw__hash_bounded (zw__hash_insert a h i)" if "h < zw__hash_size"
    using assms(2) q that by (rule zw__hash_bounded_insert)
  have bf: "zw__hash_bounded a' \<and> quality a' = 8"
    if "snd (zw_begin_file (Some a) path) = Some a'" for a'
    using zw__hash_bounded_begin_file [OF assms(2) q that] assms(1) by simp
  have wr: "\<exists>a'. zw_write (Some a) data = Some (num_files a \<noteq> 0, Some a')
                      \<and> zw__hash_bounded a' \<and> quality a' = 8"
    if "zw__ready a"
    using zw__hash_bounded_write [OF that assms(2) q, of data] assms(1) by simp
  have fin: "zw__hash_bounded a'" if "snd (zw_finish (Some a)) = Some a'" for a'
    using that by (rule zw__hash_bounded_finish)
  have cr: "quality a0 = 8 \<and> zw__hash_bounded a0"
    if "zw_create_ex options local = Some a0"
    for options local and a0 :: "'a zw__zip_details"
    using that by (rule zw__hash_bounded_create_ex)
  from full other ins bf wr fin cr
    zw__hash_bounded_flush_iter [OF assms(2) q, of data_len i]
    zw__hash_bounded_flush_input [OF assms(2) q]
    zw__hash_bounded_end_file [OF assms(2) q]
  show ?thesis by blast
qed

theorem zw__hash_table_bounded_witness:
  "quality zw_full_slot_session = 8 \<and> zw__hash_bounded zw_full_slot_session
   \<and> zw__sbcount (hash_table zw_full_slot_session 5) = 16
   \<and> hash_table (zw__hash_insert zw_full_slot_session 5 7) 5
       = Some [40008, 40009, 40010, 40011, 40012, 40013, 40014, 40015, 32775]
   \<and> zw__hash_bounded (zw__hash_insert zw_full_slot_session 5 7)
   \<and> zw__hash_bounded (zw__flush_input zw_full_slot_session)"
proof -
  from zw_session_fields [of 1000] obtain a where a: "zw_session 1000 = Some a" "quality a = 8"
    by blast
  have q: "quality zw_full_slot_session = 8"
    by (simp add: zw_full_slot_session_def a)
  have c: "zw__sbcount (hash_table zw_full_slot_session 5) = 16"
    by (simp add: zw_full_slot_session_def zw__sbcount_def)
  have b: "zw__hash_bounded zw_full_slot_session"
    by (simp add: zw__hash_bounded_def zw_full_slot_session_def zw__sbcount_def a)
  have it: "zw__sbitems (hash_table zw_full_slot_session 5)
      = [40000, 40001, 40002, 40003, 40004, 40005, 40006, 40007,
         40008, 40009, 40010, 40011, 40012, 40013, 40014, 40015]"
    by (simp add: zw_full_slot_session_def zw__sbitems_def)
  have h: "(5 :: nat) < zw__hash_size" by (simp add: zw__hash_size_def)
  note r = zw__hash_table_bounded [OF q b, of 5 7 0 None "[]"]
  from r c have e1: "hash_table (zw__hash_insert zw_full_slot_session 5 7) 5
      = Some (drop 8 (zw__sbitems (hash_table zw_full_slot_session 5)) @ [(7 + 32768) mod 65536])"
    by blast
  from r h have e2: "zw__hash_bounded (zw__hash_insert zw_full_slot_session 5 7)"
    by blast
  from r have e3: "zw__hash_bounded (zw__flush_input zw_full_slot_session)"
    by blast
  from e1 have e4: "hash_table (zw__hash_insert zw_full_slot_session 5 7) 5
       = Some [40008, 40009, 40010, 40011, 40012, 40013, 40014, 40015, 32775]"
    by (simp add: it)
  from q b c e4 e2 e3 show ?thesis by blast
qed

end
